theory Spec2Isabelle
  imports Main "HOL-Library.Word"
begin

section \<open>Python values\<close>

text \<open>
  A Python \<open>str\<close> is a sequence of Unicode code points and a \<open>bytes\<close> object a
  sequence of octets. \<open>lit\<close> turns an ASCII literal of the source into a \<open>str\<close>.
\<close>

type_synonym str = "nat list"
type_synonym bytes = "8 word list"

definition lit :: "string \<Rightarrow> str" where
  "lit s = map of_char s"

definition startswith :: "str \<Rightarrow> str \<Rightarrow> bool" where
  "startswith s p = (take (length p) s = p)"

definition endswith :: "str \<Rightarrow> str \<Rightarrow> bool" where
  "endswith s p = (length p \<le> length s \<and> drop (length s - length p) s = p)"

text \<open>
  \<open>str.lower()\<close>. The letters \<open>A\<close> to \<open>Z\<close> (65 to 90) move to \<open>a\<close> to \<open>z\<close>. Code points
  outside ASCII are left as they are: Python lowers them by the Unicode tables, which
  lie outside this development, and no lowering of a code point outside ASCII ends in
  one of the characters of \<open>.csv\<close> or \<open>.pdf\<close>, the only suffixes tested on a lowered
  string.
\<close>

definition lower_cp :: "nat \<Rightarrow> nat" where
  "lower_cp c = (if 65 \<le> c \<and> c \<le> 90 then c + 32 else c)"

definition lower :: "str \<Rightarrow> str" where
  "lower s = map lower_cp s"

section \<open>The output name\<close>

text \<open>
  \<^verbatim>\<open>
  if not outputfile_name.lower().endswith('.csv'):
      outputfile_name += '.csv'
  return outputfile_name
  \<close>
\<close>

definition ensure_csv_extension :: "str \<Rightarrow> str" where
  "ensure_csv_extension outputfile_name =
     (if \<not> endswith (lower outputfile_name) (lit ''.csv'')
      then outputfile_name @ lit ''.csv''
      else outputfile_name)"

text \<open>
  The specification's wording of the test: the name ends in a dot followed by the
  letters c, s, v, each in either case.
\<close>

definition ends_in_csv_any_case :: "str \<Rightarrow> bool" where
  "ends_in_csv_any_case n =
     (case rev n of
        v # s # c # dot # stem \<Rightarrow>
          dot = 46 \<and> (c = 99 \<or> c = 67) \<and> (s = 115 \<or> s = 83) \<and> (v = 118 \<or> v = 86)
      | _ \<Rightarrow> False)"

section \<open>Text and octets\<close>

text \<open>
  \<open>str.strip()\<close> without an argument removes leading and trailing whitespace, that is
  the code points for which \<open>str.isspace\<close> holds.
\<close>

definition isspace :: "nat \<Rightarrow> bool" where
  "isspace c =
     ((9 \<le> c \<and> c \<le> 13) \<or> (28 \<le> c \<and> c \<le> 32) \<or> c = 133 \<or> c = 160 \<or> c = 5760
      \<or> (8192 \<le> c \<and> c \<le> 8202) \<or> c = 8232 \<or> c = 8233 \<or> c = 8239 \<or> c = 8287
      \<or> c = 12288)"

definition lstrip :: "str \<Rightarrow> str" where
  "lstrip s = dropWhile isspace s"

definition rstrip :: "str \<Rightarrow> str" where
  "rstrip s = rev (dropWhile isspace (rev s))"

definition strip :: "str \<Rightarrow> str" where
  "strip s = rstrip (lstrip s)"

text \<open>
  The specification's wording of trimming: \<open>t\<close> is \<open>s\<close> without the whitespace around it,
  that is \<open>t\<close> sits in \<open>s\<close> between two runs of whitespace and neither starts nor ends
  with whitespace.
\<close>

definition trimmed_of :: "str \<Rightarrow> str \<Rightarrow> bool" where
  "trimmed_of s t =
     ((t = [] \<or> (\<not> isspace (hd t) \<and> \<not> isspace (last t)))
      \<and> list_ex (\<lambda>k. take (length t) (drop k s) = t \<and> list_all isspace (take k s)
                     \<and> list_all isspace (drop (k + length t) s)) [0..<Suc (length s)])"

text \<open>
  Exceptions. Every constructor stands for a class below Python's \<open>Exception\<close>, which
  is what a file operation, a codec, an attribute access or the PDF library raises;
  \<open>Other\<close> carries the name of any further such class.
\<close>

datatype exn =
    FileNotFoundError
  | IsADirectoryError
  | PermissionError
  | UnicodeDecodeError
  | UnicodeEncodeError
  | AttributeError
  | ValueError
  | PdfReadError
  | Other string

text \<open>
  \<open>bytes.decode('utf-8')\<close> with the default strict error handling: shortest forms only,
  no surrogates, nothing above U+10FFFF, and a sequence cut off by the end of the data
  is an error.
\<close>

definition is_cont :: "8 word \<Rightarrow> bool" where
  "is_cont b = (0x80 \<le> b \<and> b \<le> 0xBF)"

text \<open>
  \<open>utf8_first b bs\<close> decodes the sequence that starts with the octet \<open>b\<close> and goes on
  in \<open>bs\<close>: the code point and the number of octets of \<open>bs\<close> it takes.
\<close>

definition utf8_first :: "8 word \<Rightarrow> bytes \<Rightarrow> (nat \<times> nat) option" where
  "utf8_first b bs =
     (if b < 0x80 then Some (unat b, 0)
      else if 0xC2 \<le> b \<and> b \<le> 0xDF then
        (case bs of
           c1 # r \<Rightarrow>
             if is_cont c1 then Some ((unat b - 0xC0) * 64 + (unat c1 - 0x80), 1) else None
         | _ \<Rightarrow> None)
      else if 0xE0 \<le> b \<and> b \<le> 0xEF then
        (case bs of
           c1 # c2 # r \<Rightarrow>
             if is_cont c1 \<and> is_cont c2 \<and> (b = 0xE0 \<longrightarrow> 0xA0 \<le> c1) \<and> (b = 0xED \<longrightarrow> c1 < 0xA0)
             then Some ((unat b - 0xE0) * 4096 + (unat c1 - 0x80) * 64 + (unat c2 - 0x80), 2)
             else None
         | _ \<Rightarrow> None)
      else if 0xF0 \<le> b \<and> b \<le> 0xF4 then
        (case bs of
           c1 # c2 # c3 # r \<Rightarrow>
             if is_cont c1 \<and> is_cont c2 \<and> is_cont c3
                \<and> (b = 0xF0 \<longrightarrow> 0x90 \<le> c1) \<and> (b = 0xF4 \<longrightarrow> c1 < 0x90)
             then Some ((unat b - 0xF0) * 262144 + (unat c1 - 0x80) * 4096
                        + (unat c2 - 0x80) * 64 + (unat c3 - 0x80), 3)
             else None
         | _ \<Rightarrow> None)
      else None)"

function utf8_decode :: "bytes \<Rightarrow> str option" where
  "utf8_decode [] = Some []"
| "utf8_decode (b # bs) =
     (case utf8_first b bs of
        None \<Rightarrow> None
      | Some (c, k) \<Rightarrow> map_option ((#) c) (utf8_decode (drop k bs)))"
  by pat_completeness auto
termination
  by (relation "measure length") auto

definition decode :: "bytes \<Rightarrow> exn + str" where
  "decode b = (case utf8_decode b of None \<Rightarrow> Inl UnicodeDecodeError | Some s \<Rightarrow> Inr s)"

text \<open>
  The text layer of a file opened with \<open>encoding='utf-8'\<close> encodes what is written to
  it; a surrogate (and a number that is no code point) cannot be encoded.
\<close>

definition utf8_encode_cp :: "nat \<Rightarrow> bytes option" where
  "utf8_encode_cp c =
     (if c < 0x80 then Some [of_nat c]
      else if c < 0x800 then Some [of_nat (0xC0 + c div 64), of_nat (0x80 + c mod 64)]
      else if c < 0x10000 then
        (if 0xD800 \<le> c \<and> c \<le> 0xDFFF then None
         else Some [of_nat (0xE0 + c div 4096), of_nat (0x80 + c div 64 mod 64),
                    of_nat (0x80 + c mod 64)])
      else if c < 0x110000 then
        Some [of_nat (0xF0 + c div 262144), of_nat (0x80 + c div 4096 mod 64),
              of_nat (0x80 + c div 64 mod 64), of_nat (0x80 + c mod 64)]
      else None)"

fun utf8_encode :: "str \<Rightarrow> bytes option" where
  "utf8_encode [] = Some []"
| "utf8_encode (c # cs) =
     (case utf8_encode_cp c of
        None \<Rightarrow> None
      | Some b \<Rightarrow> map_option ((@) b) (utf8_encode cs))"

section \<open>The world the program runs in\<close>

text \<open>
  What the operating system answers for a path: a file with its octets, nothing there
  (a read fails, a write creates the file), or a path that cannot be opened at all (a
  directory, a missing parent, a refused permission) with the exception that \<open>open\<close>
  raises. \<open>walk\<close> is the sequence of triples \<open>(root, dirs, files)\<close> that \<open>os.walk\<close>
  yields for a directory, in the order it yields them. A printed line is kept as the
  pieces of its f-string: literal text and interpolated strings, \<open>str(e)\<close> of an
  exception, the decimal form of an integer. Standard output is a text stream with an
  encoding of its own: \<open>stdout_error\<close> says what writing a line to it raises
  (\<open>UnicodeEncodeError\<close> for a line that the encoding cannot take), \<open>None\<close> for a line
  that it writes.
\<close>

datatype node = File bytes | Absent | NoAccess exn

datatype piece = Text str | Str_exn exn | Str_int nat

type_synonym line = "piece list"

record world =
  fs :: "str \<Rightarrow> node"
  walk :: "str \<Rightarrow> (str \<times> str list \<times> str list) list"
  stdout :: "line list"
  stdout_error :: "line \<Rightarrow> exn option"

text \<open>\<open>print(line)\<close>: the line is written, or the exception of the stream is raised.\<close>

definition print :: "line \<Rightarrow> world \<Rightarrow> exn + world" where
  "print l w =
     (case stdout_error w l of
        Some e \<Rightarrow> Inl e
      | None \<Rightarrow> Inr (w\<lparr>stdout := stdout w @ [l]\<rparr>))"

text \<open>\<open>open(path, 'rb')\<close> followed by reading the file.\<close>

definition open_rb :: "world \<Rightarrow> str \<Rightarrow> exn + bytes" where
  "open_rb w path =
     (case fs w path of
        File b \<Rightarrow> Inr b
      | Absent \<Rightarrow> Inl FileNotFoundError
      | NoAccess e \<Rightarrow> Inl e)"

text \<open>\<open>os.path.join\<close> of two components, with \<open>/\<close> (47) as the separator.\<close>

definition path_join :: "str \<Rightarrow> str \<Rightarrow> str" where
  "path_join a b =
     (if startswith b [47] then b
      else if a = [] \<or> endswith a [47] then a @ b
      else a @ [47] @ b)"

section \<open>The PDF library\<close>

text \<open>
  The values a metadata dictionary holds: a \<open>str\<close>, a \<open>datetime\<close> object, or another
  object of the PDF library. An object that is not a \<open>str\<close> is held by the text that
  \<open>str()\<close> gives for it, which is all the program ever asks of it.
\<close>

datatype datetime = DT str

datatype pyval = Str str | Datetime datetime | PdfObject str

type_synonym metadata = "(str \<times> pyval) list"

text \<open>The fixed list of field names of the specification, and being a \<open>str\<close>.\<close>

definition field_names :: "str list" where
  "field_names = map lit [''Title'', ''Author'', ''Creator'', ''Created'', ''Modified'',
     ''Subject'', ''Keywords'', ''Description'', ''Producer'', ''PDF Version'']"

definition is_str :: "pyval \<Rightarrow> bool" where
  "is_str v = (case v of Str s \<Rightarrow> True | _ \<Rightarrow> False)"

text \<open>
  The document information object of PyPDF2: the text properties are a \<open>str\<close> or
  \<open>None\<close>; the two date properties parse the stored text into a \<open>datetime\<close>, are
  \<open>None\<close> when the entry is missing and raise when the text is no date; \<open>entries\<close> is
  the dictionary itself, read by \<open>info.get\<close>. \<open>reader.metadata\<close> is \<open>None\<close> for a
  document without an information dictionary. The library is a parameter of the
  program: \<open>PdfReader\<close> takes the octets of the opened file.
\<close>

record docinfo =
  title :: "str option"
  author :: "str option"
  creator :: "str option"
  creation_date :: "exn + datetime option"
  modification_date :: "exn + datetime option"
  subject :: "str option"
  entries :: "(str \<times> pyval) list"
  producer :: "str option"

record reader =
  metadata :: "exn + docinfo option"

type_synonym pdf_library = "bytes \<Rightarrow> exn + reader"

text \<open>\<open>x if x else ''\<close> for a text property and for a date property.\<close>

definition text_or_empty :: "str option \<Rightarrow> pyval" where
  "text_or_empty x = (case x of None \<Rightarrow> Str [] | Some s \<Rightarrow> if s \<noteq> [] then Str s else Str [])"

definition date_or_empty :: "datetime option \<Rightarrow> pyval" where
  "date_or_empty x = (case x of None \<Rightarrow> Str [] | Some d \<Rightarrow> Datetime d)"

text \<open>\<open>info.get(key, '')\<close>.\<close>

definition get_or_empty :: "(str \<times> pyval) list \<Rightarrow> str \<Rightarrow> pyval" where
  "get_or_empty d key = (case map_of d key of None \<Rightarrow> Str [] | Some v \<Rightarrow> v)"

section \<open>Version Sniffer\<close>

text \<open>
  \<^verbatim>\<open>
  with open(pdf_path, 'rb') as f:
      header = f.read(8).decode('utf-8')
      if header.startswith('%PDF-'):
          return header[5:].strip()
      return 'unknown'
  \<close>
\<close>

definition extract_pdf_version :: "world \<Rightarrow> str \<Rightarrow> exn + str" where
  "extract_pdf_version w pdf_path =
     (case open_rb w pdf_path of
        Inl e \<Rightarrow> Inl e
      | Inr f \<Rightarrow>
          (case decode (take 8 f) of
             Inl e \<Rightarrow> Inl e
           | Inr header \<Rightarrow>
               if startswith header (lit ''%PDF-'')
               then Inr (strip (drop 5 header))
               else Inr (lit ''unknown'')))"

section \<open>Metadata Extractor\<close>

text \<open>
  The body of the \<open>try\<close>: the dictionary display evaluates its values in order, so the
  first of them that raises decides the exception. With \<open>info\<close> being \<open>None\<close>, the
  first attribute access raises \<open>AttributeError\<close>.
\<close>

definition build_metadata :: "world \<Rightarrow> str \<Rightarrow> docinfo \<Rightarrow> exn + metadata" where
  "build_metadata w pdf_path info =
     (case creation_date info of
        Inl e \<Rightarrow> Inl e
      | Inr created \<Rightarrow>
     (case modification_date info of
        Inl e \<Rightarrow> Inl e
      | Inr modified \<Rightarrow>
     (case extract_pdf_version w pdf_path of
        Inl e \<Rightarrow> Inl e
      | Inr version \<Rightarrow>
          Inr [(lit ''Title'', text_or_empty (title info)),
               (lit ''Author'', text_or_empty (author info)),
               (lit ''Creator'', text_or_empty (creator info)),
               (lit ''Created'', date_or_empty created),
               (lit ''Modified'', date_or_empty modified),
               (lit ''Subject'', text_or_empty (subject info)),
               (lit ''Keywords'', get_or_empty (entries info) (lit ''/Keywords'')),
               (lit ''Description'', get_or_empty (entries info) (lit ''/Description'')),
               (lit ''Producer'', text_or_empty (producer info)),
               (lit ''PDF Version'', Str version)])))"

definition extract_metadata_try :: "pdf_library \<Rightarrow> world \<Rightarrow> str \<Rightarrow> exn + metadata" where
  "extract_metadata_try PdfReader w pdf_path =
     (case open_rb w pdf_path of
        Inl e \<Rightarrow> Inl e
      | Inr f \<Rightarrow>
     (case PdfReader f of
        Inl e \<Rightarrow> Inl e
      | Inr reader \<Rightarrow>
     (case metadata reader of
        Inl e \<Rightarrow> Inl e
      | Inr None \<Rightarrow> Inl AttributeError
      | Inr (Some info) \<Rightarrow> build_metadata w pdf_path info)))"

text \<open>
  \<^verbatim>\<open>
  except Exception as e:
      print(f"Error processing file {pdf_path}: {e}")
      return None
  \<close>
  The result is what the function returns, or the exception that leaves it, and the
  world after it. An exception of the \<open>print\<close> in the handler is raised inside no
  \<open>try\<close> and leaves the function.
\<close>

definition error_line :: "str \<Rightarrow> exn \<Rightarrow> line" where
  "error_line pdf_path e =
     [Text (lit ''Error processing file '' @ pdf_path @ lit '': ''), Str_exn e]"

definition extract_metadata :: "pdf_library \<Rightarrow> str \<Rightarrow> world
    \<Rightarrow> (exn + metadata option) \<times> world" where
  "extract_metadata PdfReader pdf_path w =
     (case extract_metadata_try PdfReader w pdf_path of
        Inr m \<Rightarrow> (Inr (Some m), w)
      | Inl e \<Rightarrow>
          (case print (error_line pdf_path e) w of
             Inl e' \<Rightarrow> (Inl e', w)
           | Inr w' \<Rightarrow> (Inr None, w')))"

text \<open>The diagnostic as the specification words it: \<open>Error processing file {path}: {error}\<close>.\<close>

definition diagnostic :: "str \<Rightarrow> exn \<Rightarrow> line" where
  "diagnostic path error = [Text (lit ''Error processing file '' @ path @ lit '': ''), Str_exn error]"

section \<open>Table Writer\<close>

text \<open>
  The \<open>csv\<close> writer with \<open>delimiter=';'\<close> and otherwise the default dialect: minimal
  quoting with \<open>"\<close> (34), a quote inside a field doubled, rows ended by CR LF. A field
  is quoted when it holds the delimiter (59), the quote character, CR (13) or LF (10); a row
  that is one empty field is written as two quotes. A value that is not a \<open>str\<close> is
  written as \<open>str()\<close> of it.
\<close>

definition csv_text :: "pyval \<Rightarrow> str" where
  "csv_text v = (case v of Str s \<Rightarrow> s | Datetime (DT t) \<Rightarrow> t | PdfObject t \<Rightarrow> t)"

definition needs_quote :: "str \<Rightarrow> bool" where
  "needs_quote s = (\<exists>c \<in> set s. c = 59 \<or> c = 34 \<or> c = 13 \<or> c = 10)"

definition csv_field :: "str \<Rightarrow> str" where
  "csv_field s =
     (if needs_quote s
      then [34] @ concat (map (\<lambda>c. if c = 34 then [34, 34] else [c]) s) @ [34]
      else s)"

fun join :: "str \<Rightarrow> str list \<Rightarrow> str" where
  "join sep [] = []"
| "join sep [x] = x"
| "join sep (x # y # ys) = x @ sep @ join sep (y # ys)"

definition csv_row :: "str list \<Rightarrow> str" where
  "csv_row row =
     (if row = [[]] then [34, 34] else join [59] (map csv_field row)) @ [13, 10]"

text \<open>
  \<open>DictWriter._dict_to_list\<close> with the defaults \<open>restval=''\<close> and
  \<open>extrasaction='raise'\<close>: a key of the row that is no field name raises
  \<open>ValueError\<close>; a field name the row lacks is written as the empty string.
\<close>

definition dict_to_list :: "str list \<Rightarrow> metadata \<Rightarrow> exn + pyval list" where
  "dict_to_list fieldnames rowdict =
     (if \<exists>k \<in> set (map fst rowdict). k \<notin> set fieldnames then Inl ValueError
      else Inr (map (get_or_empty rowdict) fieldnames))"

text \<open>
  \<open>writer.writerow\<close> on the open file: the row is formatted, then written through the
  text layer, which encodes it and appends the octets to what the file holds.
\<close>

definition writerow :: "str list \<Rightarrow> metadata \<Rightarrow> bytes \<Rightarrow> exn + bytes" where
  "writerow fieldnames rowdict buf =
     (case dict_to_list fieldnames rowdict of
        Inl e \<Rightarrow> Inl e
      | Inr vals \<Rightarrow>
          (case utf8_encode (csv_row (map csv_text vals)) of
             None \<Rightarrow> Inl UnicodeEncodeError
           | Some b \<Rightarrow> Inr (buf @ b)))"

text \<open>\<open>writeheader\<close> writes the row \<open>dict(zip(fieldnames, fieldnames))\<close>.\<close>

definition writeheader :: "str list \<Rightarrow> bytes \<Rightarrow> exn + bytes" where
  "writeheader fieldnames buf =
     writerow fieldnames (zip fieldnames (map Str fieldnames)) buf"

text \<open>
  The loop over the records. An exception leaves the loop with what was written so
  far, which the closing of the file keeps.
\<close>

fun writerows :: "str list \<Rightarrow> metadata list \<Rightarrow> bytes \<Rightarrow> exn option \<times> bytes" where
  "writerows fieldnames [] buf = (None, buf)"
| "writerows fieldnames (m # ms) buf =
     (case writerow fieldnames m buf of
        Inl e \<Rightarrow> (Some e, buf)
      | Inr buf' \<Rightarrow> writerows fieldnames ms buf')"

text \<open>
  \<^verbatim>\<open>
  if metadata_list:
      keys = metadata_list[0].keys()
      with open(output_file_name, 'w', newline='', encoding='utf-8') as csvfile:
          writer = csv.DictWriter(csvfile, fieldnames=keys, delimiter=';')
          writer.writeheader()
          for metadata in metadata_list:
              writer.writerow(metadata)
  \<close>
  The result is the exception that leaves the function, if any, and the world after it.
  Opening for writing empties the file.
\<close>

definition put_file :: "str \<Rightarrow> bytes \<Rightarrow> world \<Rightarrow> world" where
  "put_file path b w = w\<lparr>fs := (fs w)(path := File b)\<rparr>"

definition write_csv :: "metadata list \<Rightarrow> str \<Rightarrow> world \<Rightarrow> exn option \<times> world" where
  "write_csv metadata_list output_file_name w =
     (case metadata_list of
        [] \<Rightarrow> (None, w)
      | first # _ \<Rightarrow>
          (let keys = map fst first in
           case fs w output_file_name of
             NoAccess e \<Rightarrow> (Some e, w)
           | _ \<Rightarrow>
               (case writeheader keys [] of
                  Inl e \<Rightarrow> (Some e, put_file output_file_name [] w)
                | Inr buf \<Rightarrow>
                    (case writerows keys metadata_list buf of
                       (r, buf') \<Rightarrow> (r, put_file output_file_name buf' w)))))"

text \<open>
  The text of the file as the specification words it: the header is the ten field names
  joined by \<open>;\<close>, the row of a record is its values in the order the record holds them,
  each quoted as the writer quotes a field, and every row ends in the line terminator of
  the writer, a carriage return and a line feed. \<open>row_under\<close> is the row of a record
  laid out under given keys: the text of the value that the record holds under each key,
  the empty string where it holds none.
\<close>

definition header_row :: str where
  "header_row = join [59] field_names @ [13, 10]"

definition record_row :: "metadata \<Rightarrow> str" where
  "record_row m = join [59] (map (\<lambda>kv. csv_field (csv_text (snd kv))) m) @ [13, 10]"

definition csv_file_text :: "metadata list \<Rightarrow> str" where
  "csv_file_text ms = header_row @ concat (map record_row ms)"

definition row_under :: "str list \<Rightarrow> metadata \<Rightarrow> str" where
  "row_under keys m =
     csv_row (map (\<lambda>k. case map_of m k of None \<Rightarrow> [] | Some v \<Rightarrow> csv_text v) keys)"

text \<open>
  A text can be encoded when it holds Unicode scalar values only: code points below
  \<open>0x110000\<close> that are no surrogates. The lines of a file are counted by its line feeds;
  \<open>line_feeds_in\<close> counts the line feeds inside the values of a record.
\<close>

definition scalar_value :: "nat \<Rightarrow> bool" where
  "scalar_value c = (c < 0x110000 \<and> \<not> (0xD800 \<le> c \<and> c \<le> 0xDFFF))"

definition encodable :: "str \<Rightarrow> bool" where
  "encodable s = (\<forall>c \<in> set s. scalar_value c)"

definition newline_count :: "node \<Rightarrow> nat" where
  "newline_count n = (case n of File b \<Rightarrow> count_list b 10 | _ \<Rightarrow> 0)"

definition line_feeds_in :: "metadata \<Rightarrow> nat" where
  "line_feeds_in m = sum_list (map (\<lambda>kv. count_list (csv_text (snd kv)) 10) m)"

text \<open>
  Re-reading the delimited file: the reader of the \<open>csv\<close> module with \<open>delimiter=';'\<close>,
  over the text of a file opened with \<open>newline=''\<close>. It reads character by character. A
  field that starts with a quote runs to the next single quote, a doubled quote standing
  for one quote, and may hold delimiters and line breaks; outside quotes a delimiter
  ends the field, and a carriage return, a line feed, or the two in this order end the
  row. A line break where a row would start gives a row without fields. At the end of
  the text a row that has begun is closed. The reading is the state, the field and the
  row that are being read, and the rows read so far. (The limit that the module puts on
  the length of one field is left out.)
\<close>

datatype rstate = Start_record | Start_field | In_field | In_quoted | Quote_in_quoted | After_cr

type_synonym reading = "rstate \<times> str \<times> str list \<times> str list list"

definition start_record :: "str list list \<Rightarrow> nat \<Rightarrow> reading" where
  "start_record rows c =
     (if c = 34 then (In_quoted, [], [], rows)
      else if c = 59 then (Start_field, [], [[]], rows)
      else if c = 13 then (After_cr, [], [], rows @ [[]])
      else if c = 10 then (Start_record, [], [], rows @ [[]])
      else (In_field, [c], [], rows))"

fun read_char :: "reading \<Rightarrow> nat \<Rightarrow> reading" where
  "read_char (Start_record, field, row, rows) c = start_record rows c"
| "read_char (After_cr, field, row, rows) c =
     (if c = 10 then (Start_record, [], [], rows) else start_record rows c)"
| "read_char (Start_field, field, row, rows) c =
     (if c = 34 then (In_quoted, [], row, rows)
      else if c = 59 then (Start_field, [], row @ [[]], rows)
      else if c = 13 then (After_cr, [], [], rows @ [row @ [[]]])
      else if c = 10 then (Start_record, [], [], rows @ [row @ [[]]])
      else (In_field, [c], row, rows))"
| "read_char (In_field, field, row, rows) c =
     (if c = 59 then (Start_field, [], row @ [field], rows)
      else if c = 13 then (After_cr, [], [], rows @ [row @ [field]])
      else if c = 10 then (Start_record, [], [], rows @ [row @ [field]])
      else (In_field, field @ [c], row, rows))"
| "read_char (In_quoted, field, row, rows) c =
     (if c = 34 then (Quote_in_quoted, field, row, rows)
      else (In_quoted, field @ [c], row, rows))"
| "read_char (Quote_in_quoted, field, row, rows) c =
     (if c = 34 then (In_quoted, field @ [34], row, rows)
      else if c = 59 then (Start_field, [], row @ [field], rows)
      else if c = 13 then (After_cr, [], [], rows @ [row @ [field]])
      else if c = 10 then (Start_record, [], [], rows @ [row @ [field]])
      else (In_field, field @ [c], row, rows))"

fun finish :: "reading \<Rightarrow> str list list" where
  "finish (Start_record, field, row, rows) = rows"
| "finish (After_cr, field, row, rows) = rows"
| "finish (Start_field, field, row, rows) = rows @ [row @ [[]]]"
| "finish (In_field, field, row, rows) = rows @ [row @ [field]]"
| "finish (In_quoted, field, row, rows) = rows @ [row @ [field]]"
| "finish (Quote_in_quoted, field, row, rows) = rows @ [row @ [field]]"

definition read_csv :: "str \<Rightarrow> str list list" where
  "read_csv text = finish (foldl read_char (Start_record, [], [], []) text)"

section \<open>Aggregator\<close>

text \<open>A dictionary is true when it is not empty; \<open>None\<close> is false.\<close>

definition truthy :: "metadata option \<Rightarrow> bool" where
  "truthy x = (case x of None \<Rightarrow> False | Some m \<Rightarrow> m \<noteq> [])"

text \<open>
  \<^verbatim>\<open>
  metadata = extract_metadata(file_path)
  if metadata:
      write_csv([metadata], output_file_name)
      print(f"Metadata is saved as {output_file_name}.")
  \<close>
\<close>

definition process_file :: "pdf_library \<Rightarrow> str \<Rightarrow> str \<Rightarrow> world \<Rightarrow> exn option \<times> world" where
  "process_file PdfReader file_path output_file_name w =
     (case extract_metadata PdfReader file_path w of
        (Inl e, w1) \<Rightarrow> (Some e, w1)
      | (Inr md, w1) \<Rightarrow>
          if truthy md then
            (case write_csv [the md] output_file_name w1 of
               (Some e, w2) \<Rightarrow> (Some e, w2)
             | (None, w2) \<Rightarrow>
                 (case print [Text (lit ''Metadata is saved as '' @ output_file_name @ lit ''.'')]
                         w2 of
                    Inl e \<Rightarrow> (Some e, w2)
                  | Inr w3 \<Rightarrow> (None, w3)))
          else (None, w1))"

text \<open>
  \<^verbatim>\<open>
  for file in files:
      if file.lower().endswith('.pdf'):
          file_path = os.path.join(root, file)
          metadata = extract_metadata(file_path)
          if metadata:
              metadata_list.append(metadata)
  \<close>
  An exception that leaves \<open>extract_metadata\<close> ends the loops and leaves
  \<open>process_directory\<close>.
\<close>

fun scan_files :: "pdf_library \<Rightarrow> str \<Rightarrow> str list \<Rightarrow> metadata list \<times> world
    \<Rightarrow> (exn + metadata list) \<times> world" where
  "scan_files PdfReader root [] (metadata_list, w) = (Inr metadata_list, w)"
| "scan_files PdfReader root (file # files) (metadata_list, w) =
     (if endswith (lower file) (lit ''.pdf'') then
        (case extract_metadata PdfReader (path_join root file) w of
           (Inl e, w') \<Rightarrow> (Inl e, w')
         | (Inr md, w') \<Rightarrow>
             if truthy md
             then scan_files PdfReader root files (metadata_list @ [the md], w')
             else scan_files PdfReader root files (metadata_list, w'))
      else scan_files PdfReader root files (metadata_list, w))"

text \<open>\<^verbatim>\<open>for root, dirs, files in os.walk(directory_path):\<close>\<close>

fun scan_walk :: "pdf_library \<Rightarrow> (str \<times> str list \<times> str list) list \<Rightarrow> metadata list \<times> world
    \<Rightarrow> (exn + metadata list) \<times> world" where
  "scan_walk PdfReader [] (metadata_list, w) = (Inr metadata_list, w)"
| "scan_walk PdfReader ((root, dirs, files) # rest) (metadata_list, w) =
     (case scan_files PdfReader root files (metadata_list, w) of
        (Inl e, w') \<Rightarrow> (Inl e, w')
      | (Inr metadata_list', w') \<Rightarrow> scan_walk PdfReader rest (metadata_list', w'))"

text \<open>
  \<^verbatim>\<open>
  if metadata_list:
      write_csv(metadata_list, output_file_name)
      print(f"Metadata from {len(metadata_list)} files was saved in {output_file_name}.")
  else:
      print("No pdf files found in directory.")
  \<close>
\<close>

definition saved_line :: "nat \<Rightarrow> str \<Rightarrow> line" where
  "saved_line n output_file_name =
     [Text (lit ''Metadata from ''), Str_int n,
      Text (lit '' files was saved in '' @ output_file_name @ lit ''.'')]"

definition none_found_line :: line where
  "none_found_line = [Text (lit ''No pdf files found in directory.'')]"

definition process_directory :: "pdf_library \<Rightarrow> str \<Rightarrow> str \<Rightarrow> world \<Rightarrow> exn option \<times> world" where
  "process_directory PdfReader directory_path output_file_name w =
     (case scan_walk PdfReader (walk w directory_path) ([], w) of
        (Inl e, w1) \<Rightarrow> (Some e, w1)
      | (Inr metadata_list, w1) \<Rightarrow>
          if metadata_list \<noteq> [] then
            (case write_csv metadata_list output_file_name w1 of
               (Some e, w2) \<Rightarrow> (Some e, w2)
             | (None, w2) \<Rightarrow>
                 (case print (saved_line (length metadata_list) output_file_name) w2 of
                    Inl e \<Rightarrow> (Some e, w2)
                  | Inr w3 \<Rightarrow> (None, w3)))
          else
            (case print none_found_line w1 of
               Inl e \<Rightarrow> (Some e, w1)
             | Inr w2 \<Rightarrow> (None, w2)))"

text \<open>
  The walk as the specification words it: the paths of the files whose lowered name ends
  in \<open>.pdf\<close>, in the order of the walk; the records of the paths whose extraction
  succeeds; for the others the line \<open>Error processing file {path}: {error}\<close>.
\<close>

definition pdf_files :: "str \<Rightarrow> str list \<Rightarrow> str list" where
  "pdf_files root files =
     map (path_join root) (filter (\<lambda>file. endswith (lower file) (lit ''.pdf'')) files)"

definition pdf_paths :: "(str \<times> str list \<times> str list) list \<Rightarrow> str list" where
  "pdf_paths tree = concat (map (\<lambda>(root, dirs, files). pdf_files root files) tree)"

definition parsed :: "pdf_library \<Rightarrow> world \<Rightarrow> str list \<Rightarrow> metadata list" where
  "parsed PdfReader w paths =
     concat (map (\<lambda>p. case extract_metadata_try PdfReader w p of
                        Inl e \<Rightarrow> [] | Inr m \<Rightarrow> [m]) paths)"

definition failed :: "pdf_library \<Rightarrow> world \<Rightarrow> str list \<Rightarrow> line list" where
  "failed PdfReader w paths =
     concat (map (\<lambda>p. case extract_metadata_try PdfReader w p of
                        Inl e \<Rightarrow> [diagnostic p e] | Inr m \<Rightarrow> []) paths)"

definition successes :: "pdf_library \<Rightarrow> world \<Rightarrow> str \<Rightarrow> metadata list" where
  "successes PdfReader w directory_path = parsed PdfReader w (pdf_paths (walk w directory_path))"

definition error_lines :: "pdf_library \<Rightarrow> world \<Rightarrow> str \<Rightarrow> line list" where
  "error_lines PdfReader w directory_path = failed PdfReader w (pdf_paths (walk w directory_path))"

section \<open>Example inputs\<close>

text \<open>The octets of an ASCII literal, as a file holds them.\<close>

definition octets :: "string \<Rightarrow> bytes" where
  "octets s = map of_char s"

text \<open>A world without files, whose standard output takes every line.\<close>

definition empty_world :: world where
  "empty_world =
     \<lparr>fs = (\<lambda>p. Absent), walk = (\<lambda>d. []), stdout = [], stdout_error = (\<lambda>l. None)\<rparr>"




text \<open>A PNG image stored under a name that ends in \<open>.pdf\<close>.\<close>

definition png_world :: world where
  "png_world = put_file (lit ''scan.pdf'')
     [0x89, 0x50, 0x4E, 0x47, 0x0D, 0x0A, 0x1A, 0x0A, 0x00, 0x00, 0x00, 0x0D] empty_world"

text \<open>
  A PDF file, and three answers of the library for it: a document whose information
  dictionary holds a title and nothing else, the same with a creation date, and a
  document without an information dictionary.
\<close>

definition pdf_world :: world where
  "pdf_world = put_file (lit ''doc.pdf'') (octets ''%PDF-1.4 1 0 obj'') empty_world"

definition plain_info :: docinfo where
  "plain_info = \<lparr>title = Some (lit ''Report''), author = None, creator = None,
     creation_date = Inr None, modification_date = Inr None, subject = None,
     entries = [], producer = None\<rparr>"

definition plain_library :: pdf_library where
  "plain_library b = Inr \<lparr>metadata = Inr (Some plain_info)\<rparr>"

definition dated_library :: pdf_library where
  "dated_library b = Inr \<lparr>metadata = Inr (Some (plain_info
     \<lparr>creation_date := Inr (Some (DT (lit ''2020-01-01 00:00:00+00:00'')))\<rparr>))\<rparr>"

definition no_info_library :: pdf_library where
  "no_info_library b = Inr \<lparr>metadata = Inr None\<rparr>"

text \<open>
  Records: the one that the Metadata Extractor builds for the document with a title, its
  file, the same record with a line feed inside the title and its file, and the same
  record with a surrogate as the title; two records with fewer keys, the second without
  the first key of the first, and a record with a key that these two do not have.
\<close>

definition report_record :: metadata where
  "report_record =
     [(lit ''Title'', Str (lit ''Report'')), (lit ''Author'', Str []), (lit ''Creator'', Str []),
      (lit ''Created'', Str []), (lit ''Modified'', Str []), (lit ''Subject'', Str []),
      (lit ''Keywords'', Str []), (lit ''Description'', Str []), (lit ''Producer'', Str []),
      (lit ''PDF Version'', Str (lit ''1.4''))]"

definition report_csv :: bytes where
  "report_csv =
     octets ''Title;Author;Creator;Created;Modified;Subject;Keywords;Description;Producer;PDF Version''
       @ [13, 10] @ octets ''Report;;;;;;;;;1.4'' @ [13, 10]"

definition newline_record :: metadata where
  "newline_record =
     [(lit ''Title'', Str [97, 10, 98]), (lit ''Author'', Str []), (lit ''Creator'', Str []),
      (lit ''Created'', Str []), (lit ''Modified'', Str []), (lit ''Subject'', Str []),
      (lit ''Keywords'', Str []), (lit ''Description'', Str []), (lit ''Producer'', Str []),
      (lit ''PDF Version'', Str (lit ''1.4''))]"

definition newline_csv :: bytes where
  "newline_csv =
     octets ''Title;Author;Creator;Created;Modified;Subject;Keywords;Description;Producer;PDF Version''
       @ [13, 10, 34, 97, 10, 98, 34] @ octets '';;;;;;;;;1.4'' @ [13, 10]"

definition surrogate_record :: metadata where
  "surrogate_record =
     [(lit ''Title'', Str [0xD800]), (lit ''Author'', Str []), (lit ''Creator'', Str []),
      (lit ''Created'', Str []), (lit ''Modified'', Str []), (lit ''Subject'', Str []),
      (lit ''Keywords'', Str []), (lit ''Description'', Str []), (lit ''Producer'', Str []),
      (lit ''PDF Version'', Str (lit ''1.4''))]"

definition header_csv :: bytes where
  "header_csv =
     octets ''Title;Author;Creator;Created;Modified;Subject;Keywords;Description;Producer;PDF Version''
       @ [13, 10]"

definition two_key_record :: metadata where
  "two_key_record = [(lit ''Title'', Str (lit ''a'')), (lit ''Author'', Str (lit ''b''))]"

definition one_key_record :: metadata where
  "one_key_record = [(lit ''Author'', Str (lit ''c''))]"

definition subject_record :: metadata where
  "subject_record = [(lit ''Title'', Str (lit ''d'')), (lit ''Subject'', Str (lit ''e''))]"

text \<open>
  A directory with a PDF file under an upper-case extension, a text file, and the PNG
  image under the name \<open>scan.pdf\<close>.
\<close>

definition docs_world :: world where
  "docs_world =
     \<lparr>fs = (\<lambda>p. Absent)
        (lit ''docs/doc.PDF'' := File (octets ''%PDF-1.4 1 0 obj''),
         lit ''docs/scan.pdf'' :=
           File [0x89, 0x50, 0x4E, 0x47, 0x0D, 0x0A, 0x1A, 0x0A, 0x00, 0x00, 0x00, 0x0D]),
      walk = (\<lambda>d. [])
        (lit ''docs'' := [(lit ''docs'', [], [lit ''doc.PDF'', lit ''notes.txt'', lit ''scan.pdf''])]),
      stdout = [], stdout_error = (\<lambda>l. None)\<rparr>"

text \<open>The same directory when the output path is a file that may not be written.\<close>

definition locked_world :: world where
  "locked_world = docs_world\<lparr>fs := (fs docs_world)(lit ''out.csv'' := NoAccess PermissionError)\<rparr>"

section \<open>Properties of the output name\<close>

lemma lit_csv: "lit ''.csv'' = [46, 99, 115, 118]"
  by (simp add: lit_def)

lemma lower_cp_eq:
  "lower_cp x = 46 \<longleftrightarrow> x = 46"
  "lower_cp x = 99 \<longleftrightarrow> x = 99 \<or> x = 67"
  "lower_cp x = 115 \<longleftrightarrow> x = 115 \<or> x = 83"
  "lower_cp x = 118 \<longleftrightarrow> x = 118 \<or> x = 86"
  by (auto simp: lower_cp_def)

lemma last_four_cases:
  obtains "n = []" | a where "n = [a]" | a b where "n = [b, a]"
    | a b c where "n = [c, b, a]" | v s c d r where "n = r @ [d, c, s, v]"
proof (cases "rev n")
  case Nil
  then show ?thesis using that(1) by simp
next
  case c1: (Cons v r1)
  show ?thesis
  proof (cases r1)
    case Nil
    with c1 have "n = [v]" by (simp add: rev_swap [symmetric])
    then show ?thesis using that(2) by blast
  next
    case c2: (Cons s r2)
    show ?thesis
    proof (cases r2)
      case Nil
      with c1 c2 have "n = [s, v]" by (simp add: rev_swap [symmetric])
      then show ?thesis using that(3) by blast
    next
      case c3: (Cons c r3)
      show ?thesis
      proof (cases r3)
        case Nil
        with c1 c2 c3 have "n = [c, s, v]" by (simp add: rev_swap [symmetric])
        then show ?thesis using that(4) by blast
      next
        case (Cons d r)
        with c1 c2 c3 have "n = rev r @ [d, c, s, v]" by (simp add: rev_swap [symmetric])
        then show ?thesis using that(5) by blast
      qed
    qed
  qed
qed

lemma endswith_lower_csv: "endswith (lower n) (lit ''.csv'') = ends_in_csv_any_case n"
  by (cases n rule: last_four_cases)
     (auto simp: endswith_def lower_def lit_csv ends_in_csv_any_case_def lower_cp_eq)

text \<open>
  C10. For every output name, \<open>ensure_csv_extension\<close> appends \<open>.csv\<close> exactly when the
  name does not already end in \<open>.csv\<close> in some mix of upper and lower case, and otherwise
  returns the name as it is, its case kept: \<open>report\<close> becomes \<open>report.csv\<close> and
  \<open>Report.CSV\<close> stays \<open>Report.CSV\<close>.
\<close>

theorem ensure_csv_extension_appends_iff_missing:
  "ensure_csv_extension n = (if ends_in_csv_any_case n then n else n @ lit ''.csv'')
   \<and> ensure_csv_extension (lit ''report'') = lit ''report.csv''
   \<and> ensure_csv_extension (lit ''Report.CSV'') = lit ''Report.CSV''"
proof -
  have general: "ensure_csv_extension m = (if ends_in_csv_any_case m then m else m @ lit ''.csv'')"
    for m
    by (simp add: ensure_csv_extension_def endswith_lower_csv)
  have "ends_in_csv_any_case (lit ''Report.CSV'')" "\<not> ends_in_csv_any_case (lit ''report'')"
    by (simp_all add: ends_in_csv_any_case_def lit_def)
  with general show ?thesis
    by (simp add: lit_def)
qed

theorem ensure_csv_extension_appends_iff_missing_witness:
  "ensure_csv_extension (lit ''out.Csv'') = lit ''out.Csv''
   \<and> ensure_csv_extension (lit ''out.txt'') = lit ''out.txt.csv''"
  using ensure_csv_extension_appends_iff_missing [of "lit ''out.Csv''"]
    ensure_csv_extension_appends_iff_missing [of "lit ''out.txt''"]
  by (simp add: ends_in_csv_any_case_def lit_def)

section \<open>Properties of the Table Writer\<close>

text \<open>
  C7. For every output path, \<open>write_csv\<close> with an empty sequence of records writes
  nothing: it returns normally and the world is the one it was given, so no file is
  created and a file already at the path keeps its content.
\<close>

theorem write_csv_empty_writes_nothing:
  "write_csv [] output_file_name w = (None, w)"
  by (simp add: write_csv_def)

theorem write_csv_empty_writes_nothing_witness:
  "write_csv [] (lit ''out.csv'') (put_file (lit ''out.csv'') (octets ''old'') empty_world)
     = (None, put_file (lit ''out.csv'') (octets ''old'') empty_world)
   \<and> fs (snd (write_csv [] (lit ''out.csv'')
        (put_file (lit ''out.csv'') (octets ''old'') empty_world))) (lit ''out.csv'')
     = File (octets ''old'')"
  using write_csv_empty_writes_nothing
    [of "lit ''out.csv''" "put_file (lit ''out.csv'') (octets ''old'') empty_world"]
  by (simp add: put_file_def)

section \<open>Properties of the Version Sniffer\<close>

lemma utf8_first_consumes: "utf8_first b bs = Some (c, k) \<Longrightarrow> k \<le> length bs"
  by (auto simp: utf8_first_def split: if_splits list.splits)

lemma utf8_decode_length: "utf8_decode b = Some s \<Longrightarrow> length s \<le> length b"
proof (induction b arbitrary: s rule: utf8_decode.induct)
  case 1
  then show ?case by simp
next
  case (2 b bs)
  then show ?case
    by (fastforce split: option.splits prod.splits)
qed

lemma decode_length: "decode b = Inr s \<Longrightarrow> length s \<le> length b"
  by (auto simp: decode_def split: option.splits dest: utf8_decode_length)

lemma rstrip_split: "u = rstrip u @ rev (takeWhile isspace (rev u))"
  unfolding rstrip_def rev_append [symmetric] by simp

lemma strip_split:
  "s = takeWhile isspace s @ strip s @ rev (takeWhile isspace (rev (lstrip s)))"
proof -
  have "s = takeWhile isspace s @ lstrip s" by (simp add: lstrip_def)
  also have "lstrip s = strip s @ rev (takeWhile isspace (rev (lstrip s)))"
    unfolding strip_def by (rule rstrip_split)
  finally show ?thesis .
qed

lemma rstrip_last: "rstrip u \<noteq> [] \<Longrightarrow> \<not> isspace (last (rstrip u))"
  by (simp add: rstrip_def last_rev hd_dropWhile)

lemma rstrip_hd: "rstrip u \<noteq> [] \<Longrightarrow> hd (rstrip u) = hd u"
  by (metis hd_append2 rstrip_split)

lemma lstrip_hd: "lstrip s \<noteq> [] \<Longrightarrow> \<not> isspace (hd (lstrip s))"
  by (simp add: lstrip_def hd_dropWhile)

lemma strip_ends: "strip s \<noteq> [] \<Longrightarrow> \<not> isspace (hd (strip s)) \<and> \<not> isspace (last (strip s))"
  unfolding strip_def
  by (metis rstrip_last rstrip_hd lstrip_hd rstrip_def rev.simps(1) dropWhile.simps(1))

lemma split_parts:
  "s = l @ t @ r \<Longrightarrow>
     take (length t) (drop (length l) s) = t \<and> take (length l) s = l
     \<and> drop (length l + length t) s = r \<and> length l \<le> length s"
  by simp

lemma strip_trimmed: "trimmed_of s (strip s)"
proof -
  let ?l = "takeWhile isspace s" and ?r = "rev (takeWhile isspace (rev (lstrip s)))"
  have l: "list_all isspace ?l" by (simp add: list_all_iff) (meson set_takeWhileD)
  have r: "list_all isspace ?r" by (simp add: list_all_iff) (meson set_takeWhileD)
  have "list_ex (\<lambda>k. take (length (strip s)) (drop k s) = strip s \<and> list_all isspace (take k s)
                     \<and> list_all isspace (drop (k + length (strip s)) s)) [0..<Suc (length s)]"
    unfolding list_ex_iff using split_parts [OF strip_split [of s]] l r
    by (intro bexI [of _ "length ?l"]) auto
  then show ?thesis using strip_ends [of s] by (auto simp: trimmed_of_def)
qed

lemma lit_sig: "lit ''%PDF-'' = [37, 80, 68, 70, 45]" by (simp add: lit_def)

text \<open>
  C9. For every file whose first 8 octets decode to a text that begins with \<open>%PDF-\<close>,
  \<open>extract_pdf_version\<close> returns what follows the signature in that text, at most 3
  characters, with the whitespace around it removed; a file that begins with the octets
  of \<open>%PDF-1.4\<close>, whatever follows them, gives \<open>1.4\<close>.
\<close>

theorem extract_pdf_version_signature:
  "fs w p = File b \<Longrightarrow> decode (take 8 b) = Inr header \<Longrightarrow> startswith header (lit ''%PDF-'') \<Longrightarrow>
     extract_pdf_version w p = Inr (strip (drop 5 header))
     \<and> length (drop 5 header) \<le> 3
     \<and> trimmed_of (drop 5 header) (strip (drop 5 header))
     \<and> (\<forall>rest. b = octets ''%PDF-1.4'' @ rest \<longrightarrow> extract_pdf_version w p = Inr (lit ''1.4''))"
proof (intro conjI allI impI)
  assume f: "fs w p = File b" and d: "decode (take 8 b) = Inr header"
    and s: "startswith header (lit ''%PDF-'')"
  show v: "extract_pdf_version w p = Inr (strip (drop 5 header))"
    using f d s by (simp add: extract_pdf_version_def open_rb_def)
  from decode_length [OF d] show "length (drop 5 header) \<le> 3" by auto
  show "trimmed_of (drop 5 header) (strip (drop 5 header))" by (rule strip_trimmed)
  fix rest assume b: "b = octets ''%PDF-1.4'' @ rest"
  have "take 8 b = octets ''%PDF-1.4''" by (simp add: b octets_def)
  then have "decode (take 8 b) = Inr (lit ''%PDF-1.4'')"
    by (simp add: decode_def octets_def lit_def utf8_first_def)
  with d have "header = lit ''%PDF-1.4''" by simp
  then show "extract_pdf_version w p = Inr (lit ''1.4'')"
    unfolding v by (simp add: lit_def strip_def lstrip_def rstrip_def isspace_def)
qed

theorem extract_pdf_version_signature_witness:
  "extract_pdf_version (put_file (lit ''a.pdf'') (octets ''%PDF-1.7 rest'') empty_world) (lit ''a.pdf'')
     = Inr (lit ''1.7'')"
proof -
  let ?w = "put_file (lit ''a.pdf'') (octets ''%PDF-1.7 rest'') empty_world"
  have f: "fs ?w (lit ''a.pdf'') = File (octets ''%PDF-1.7 rest'')" by (simp add: put_file_def)
  have d: "decode (take 8 (octets ''%PDF-1.7 rest'')) = Inr (lit ''%PDF-1.7'')"
    by (simp add: decode_def octets_def lit_def utf8_first_def)
  have s: "startswith (lit ''%PDF-1.7'') (lit ''%PDF-'')" by (simp add: startswith_def lit_def)
  from extract_pdf_version_signature [OF f d s] show ?thesis
    by (simp add: lit_def strip_def lstrip_def rstrip_def isspace_def)
qed


text \<open>
  C2. The claim is that every file whose first 8 octets do not begin with the signature,
  among them a file whose first 8 octets are no valid UTF-8, gives \<open>unknown\<close> and
  no exception. The decoding is strict and stands outside any \<open>try\<close>: for a PNG image
  the function raises \<open>UnicodeDecodeError\<close>.
\<close>

theorem extract_pdf_version_undecodable_header_raises:
  "extract_pdf_version png_world (lit ''scan.pdf'') = Inl UnicodeDecodeError"
  by (simp add: png_world_def put_file_def empty_world_def extract_pdf_version_def open_rb_def
      decode_def utf8_first_def)

text \<open>
  The rest of C2 holds: a decodable prefix without the signature gives \<open>unknown\<close>, and
  so does every decodable file shorter than the signature.
\<close>

lemma extract_pdf_version_unknown:
  "fs w p = File b \<Longrightarrow> decode (take 8 b) = Inr header \<Longrightarrow> \<not> startswith header (lit ''%PDF-'') \<Longrightarrow>
     extract_pdf_version w p = Inr (lit ''unknown'')"
  by (simp add: extract_pdf_version_def open_rb_def)

lemma extract_pdf_version_short:
  "fs w p = File b \<Longrightarrow> length b < 5 \<Longrightarrow> decode b = Inr header \<Longrightarrow>
     extract_pdf_version w p = Inr (lit ''unknown'')"
  using decode_length [of b header]
  by (auto simp add: extract_pdf_version_def open_rb_def startswith_def lit_sig)


section \<open>Properties of the Metadata Extractor\<close>

lemma pdf_world_version: "extract_pdf_version pdf_world (lit ''doc.pdf'') = Inr (lit ''1.4'')"
  by (simp add: pdf_world_def put_file_def extract_pdf_version_def open_rb_def octets_def
      decode_def utf8_first_def startswith_def lit_def strip_def lstrip_def rstrip_def isspace_def)

lemma pdf_world_open: "open_rb pdf_world (lit ''doc.pdf'') = Inr (octets ''%PDF-1.4 1 0 obj'')"
  by (simp add: pdf_world_def put_file_def open_rb_def)

lemma pdf_world_stdout: "stdout pdf_world = []" "stdout_error pdf_world l = None"
  by (simp_all add: pdf_world_def put_file_def empty_world_def)

lemma build_metadata_keys: "build_metadata w p info = Inr m \<Longrightarrow> map fst m = field_names"
  by (auto simp: build_metadata_def field_names_def split: sum.splits)

lemma extract_metadata_try_keys:
  "extract_metadata_try PdfReader w p = Inr m \<Longrightarrow> map fst m = field_names"
  by (auto simp: extract_metadata_try_def split: sum.splits option.splits dest: build_metadata_keys)

lemma extract_metadata_keys:
  "extract_metadata PdfReader p w = (Inr (Some m), w') \<Longrightarrow> map fst m = field_names"
  by (auto simp: extract_metadata_def split: sum.splits dest: extract_metadata_try_keys)

text \<open>The three ways in which \<open>extract_metadata\<close> ends.\<close>

lemma extract_metadata_returns:
  "extract_metadata_try PdfReader w p = Inr m \<Longrightarrow>
     extract_metadata PdfReader p w = (Inr (Some m), w)"
  by (simp add: extract_metadata_def)

lemma extract_metadata_reports:
  "extract_metadata_try PdfReader w p = Inl e \<Longrightarrow> stdout_error w (diagnostic p e) = None \<Longrightarrow>
     extract_metadata PdfReader p w = (Inr None, w\<lparr>stdout := stdout w @ [diagnostic p e]\<rparr>)"
  by (simp add: extract_metadata_def print_def error_line_def diagnostic_def)


lemma extract_metadata_with_info:
  assumes "open_rb w p = Inr f" and "PdfReader f = Inr rd" and "metadata rd = Inr (Some info)"
    and "creation_date info = Inr c" and "modification_date info = Inr mo"
    and "extract_pdf_version w p = Inr v"
  shows "extract_metadata PdfReader p w =
    (Inr (Some [(lit ''Title'', text_or_empty (title info)),
           (lit ''Author'', text_or_empty (author info)),
           (lit ''Creator'', text_or_empty (creator info)),
           (lit ''Created'', date_or_empty c),
           (lit ''Modified'', date_or_empty mo),
           (lit ''Subject'', text_or_empty (subject info)),
           (lit ''Keywords'', get_or_empty (entries info) (lit ''/Keywords'')),
           (lit ''Description'', get_or_empty (entries info) (lit ''/Description'')),
           (lit ''Producer'', text_or_empty (producer info)),
           (lit ''PDF Version'', Str v)]), w)"
  using assms by (simp add: extract_metadata_def extract_metadata_try_def build_metadata_def)





text \<open>
  C3. The claim is that every field value of a successful record is a string, Created
  and Modified among them. \<open>info.creation_date\<close> is a \<open>datetime\<close> object and the record
  takes it as it is: for a document with a creation date the value under Created is no
  \<open>str\<close>.
\<close>

theorem extract_metadata_created_is_datetime:
  "fst (extract_metadata dated_library (lit ''doc.pdf'') pdf_world)
     = Inr (Some [(lit ''Title'', Str (lit ''Report'')), (lit ''Author'', Str []),
             (lit ''Creator'', Str []),
             (lit ''Created'', Datetime (DT (lit ''2020-01-01 00:00:00+00:00''))),
             (lit ''Modified'', Str []), (lit ''Subject'', Str []), (lit ''Keywords'', Str []),
             (lit ''Description'', Str []), (lit ''Producer'', Str []),
             (lit ''PDF Version'', Str (lit ''1.4''))])
   \<and> \<not> is_str (Datetime (DT (lit ''2020-01-01 00:00:00+00:00'')))"
  by (simp add: extract_metadata_def extract_metadata_try_def build_metadata_def
      pdf_world_open pdf_world_version dated_library_def plain_info_def
      text_or_empty_def date_or_empty_def get_or_empty_def is_str_def)

text \<open>
  C4. The claim is that a document that parses gets a record, with the empty string for
  every field that is absent. A document without an information dictionary parses, all
  its fields are absent, and \<open>reader.metadata\<close> is \<open>None\<close> for it: the first attribute
  access raises, the error line is printed and there is no record.
\<close>

theorem extract_metadata_no_info_dictionary_fails:
  "extract_metadata no_info_library (lit ''doc.pdf'') pdf_world
     = (Inr None, pdf_world\<lparr>stdout := [error_line (lit ''doc.pdf'') AttributeError]\<rparr>)"
  by (simp add: extract_metadata_def extract_metadata_try_def pdf_world_open no_info_library_def
      print_def pdf_world_stdout)

text \<open>
  With an information dictionary the claim holds for the text properties: by
  \<open>extract_metadata_with_info\<close> the record has all ten keys, and an absent or empty
  property is the empty string.
\<close>

lemma text_or_empty_absent: "text_or_empty None = Str []" "text_or_empty (Some []) = Str []"
  by (simp_all add: text_or_empty_def)

section \<open>The rows that the Table Writer writes\<close>

text \<open>The encoding writes a line feed for a line feed of the text and nowhere else.\<close>

lemma byte_of_nat_eq_10: "n < 256 \<Longrightarrow> ((of_nat n :: 8 word) = 10) = (n = 10)"
proof
  assume n: "n < 256" and eq: "(of_nat n :: 8 word) = 10"
  from eq have "unat (of_nat n :: 8 word) = unat (10 :: 8 word)" by simp
  with n show "n = 10" by (simp add: unat_of_nat)
next
  assume "n = 10" then show "(of_nat n :: 8 word) = 10" by simp
qed

lemma high_byte_no_newline:
  "128 \<le> n \<Longrightarrow> n < 256 \<Longrightarrow> count_list [of_nat n :: 8 word] 10 = 0"
  using byte_of_nat_eq_10 [of n] by simp

lemma count_list_Cons_single: "count_list (x # xs) y = count_list [x] y + count_list xs y"
  by simp

lemma utf8_encode_cp_newlines:
  assumes "utf8_encode_cp c = Some b"
  shows "count_list b 10 = (if c = 10 then 1 else 0)"
proof -
  consider (one) "c < 0x80" | (two) "0x80 \<le> c" "c < 0x800" | (three) "0x800 \<le> c" "c < 0x10000"
    | (four) "0x10000 \<le> c" "c < 0x110000" | (none) "0x110000 \<le> c"
    by linarith
  then show ?thesis
  proof cases
    case one
    with assms have "b = [of_nat c]" by (simp add: utf8_encode_cp_def)
    with one show ?thesis using byte_of_nat_eq_10 [of c] by simp
  next
    case two
    with assms have b: "b = [of_nat (0xC0 + c div 64), of_nat (0x80 + c mod 64)]"
      by (simp add: utf8_encode_cp_def del: of_nat_add)
    from two have "128 \<le> 0xC0 + c div 64" "0xC0 + c div 64 < 256"
      "128 \<le> 0x80 + c mod 64" "0x80 + c mod 64 < 256" by (simp_all, (linarith+)?)
    then show ?thesis using two unfolding b
      by (subst count_list_Cons_single) (simp only: high_byte_no_newline, simp)
  next
    case three
    with assms have b: "b = [of_nat (0xE0 + c div 4096), of_nat (0x80 + c div 64 mod 64),
        of_nat (0x80 + c mod 64)]"
      by (simp add: utf8_encode_cp_def del: of_nat_add split: if_splits)
    from three have "128 \<le> 0xE0 + c div 4096" "0xE0 + c div 4096 < 256"
      "128 \<le> 0x80 + c div 64 mod 64" "0x80 + c div 64 mod 64 < 256"
      "128 \<le> 0x80 + c mod 64" "0x80 + c mod 64 < 256" by (simp_all, (linarith+)?)
    then show ?thesis using three unfolding b
      by (subst count_list_Cons_single, subst (2) count_list_Cons_single)
         (simp only: high_byte_no_newline, simp)
  next
    case four
    with assms have b: "b = [of_nat (0xF0 + c div 262144), of_nat (0x80 + c div 4096 mod 64),
        of_nat (0x80 + c div 64 mod 64), of_nat (0x80 + c mod 64)]"
      by (simp add: utf8_encode_cp_def del: of_nat_add)
    from four have "128 \<le> 0xF0 + c div 262144" "0xF0 + c div 262144 < 256"
      "128 \<le> 0x80 + c div 4096 mod 64" "0x80 + c div 4096 mod 64 < 256"
      "128 \<le> 0x80 + c div 64 mod 64" "0x80 + c div 64 mod 64 < 256"
      "128 \<le> 0x80 + c mod 64" "0x80 + c mod 64 < 256" by (simp_all, (linarith+)?)
    then show ?thesis using four unfolding b
      by (subst count_list_Cons_single, subst (2) count_list_Cons_single,
          subst (3) count_list_Cons_single)
         (simp only: high_byte_no_newline, simp)
  next
    case none
    with assms show ?thesis by (simp add: utf8_encode_cp_def)
  qed
qed

lemma utf8_encode_newlines:
  "utf8_encode s = Some b \<Longrightarrow> count_list b 10 = count_list s 10"
proof (induction s arbitrary: b)
  case Nil then show ?case by simp
next
  case (Cons c cs)
  then obtain h t where h: "utf8_encode_cp c = Some h" and t: "utf8_encode cs = Some t"
    and b: "b = h @ t"
    by (auto split: option.splits)
  from Cons.IH [OF t] utf8_encode_cp_newlines [OF h] show ?case
    by (simp add: b)
qed

lemma utf8_encode_append:
  "utf8_encode (xs @ ys) =
     (case utf8_encode xs of None \<Rightarrow> None | Some a \<Rightarrow> map_option ((@) a) (utf8_encode ys))"
  by (induction xs; cases "utf8_encode ys") (auto split: option.splits)

text \<open>A text is encoded exactly when it holds scalar values only.\<close>

lemma utf8_encode_cp_scalar: "(utf8_encode_cp c \<noteq> None) = scalar_value c"
  by (simp add: utf8_encode_cp_def scalar_value_def)

lemma utf8_encode_encodable: "(\<exists>b. utf8_encode s = Some b) = encodable s"
proof (induction s)
  case Nil
  show ?case by (simp add: encodable_def)
next
  case (Cons c cs)
  show ?case
  proof (cases "utf8_encode_cp c")
    case None
    with utf8_encode_cp_scalar [of c] have "\<not> scalar_value c" by simp
    with None show ?thesis by (simp add: encodable_def)
  next
    case (Some h)
    with utf8_encode_cp_scalar [of c] have c: "scalar_value c" by simp
    show ?thesis
    proof (cases "utf8_encode cs")
      case None
      with Cons.IH have "\<not> encodable cs" by simp
      with None Some show ?thesis by (simp add: encodable_def)
    next
      case (Some t)
      with Cons.IH have "encodable cs" by auto
      with c Some \<open>utf8_encode_cp c = Some h\<close> show ?thesis by (simp add: encodable_def)
    qed
  qed
qed

lemma scalar_ascii: "scalar_value 34" "scalar_value 59" "scalar_value 13" "scalar_value 10"
  by (simp_all add: scalar_value_def)

lemma encodable_append: "encodable (a @ b) = (encodable a \<and> encodable b)"
  by (auto simp: encodable_def)

lemma set_doubled: "set (concat (map (\<lambda>c. if c = 34 then [34, 34] else [c]) s)) \<subseteq> set (s :: str)"
  by (induction s) auto

lemma encodable_csv_field:
  assumes "encodable s"
  shows "encodable (csv_field s)"
proof (cases "needs_quote s")
  case False
  with assms show ?thesis by (simp add: csv_field_def)
next
  case True
  have "encodable (concat (map (\<lambda>c. if c = 34 then [34, 34] else [c]) s))"
    using assms set_doubled [of s] unfolding encodable_def by blast
  then show ?thesis using True by (simp add: csv_field_def encodable_def scalar_ascii)
qed

lemma encodable_join:
  "encodable sep \<Longrightarrow> \<forall>x \<in> set xs. encodable x \<Longrightarrow> encodable (join sep xs)"
proof (induction sep xs rule: join.induct)
  case (1 sep)
  show ?case by (simp add: encodable_def)
next
  case (2 sep x)
  then show ?case by simp
next
  case (3 sep x y ys)
  then show ?case by (simp add: encodable_append)
qed

text \<open>The header row and the row of a record with the ten keys.\<close>

lemma field_names_distinct: "distinct field_names"
  by (simp add: field_names_def lit_def)

lemma length_field_names: "length field_names = 10"
  by (simp add: field_names_def)

lemma header_row_text:
  "header_row = lit ''Title;Author;Creator;Created;Modified;Subject;Keywords;Description;Producer;PDF Version'' @ [13, 10]"
  by (simp add: header_row_def field_names_def lit_def)

lemma csv_row_field_names: "csv_row field_names = header_row"
  by (simp add: csv_row_def header_row_def field_names_def lit_def csv_field_def needs_quote_def)

lemma map_of_zip_Str: "k \<in> set ks \<Longrightarrow> map_of (zip ks (map Str ks)) k = Some (Str k)"
  by (induction ks) auto

lemma dict_to_list_header: "dict_to_list ks (zip ks (map Str ks)) = Inr (map Str ks)"
  by (auto simp: dict_to_list_def get_or_empty_def map_of_zip_Str dest: set_zip_leftD)

lemma writeheader_eq:
  "writeheader ks buf =
     (case utf8_encode (csv_row ks) of None \<Rightarrow> Inl UnicodeEncodeError | Some b \<Rightarrow> Inr (buf @ b))"
  by (simp add: writeheader_def writerow_def dict_to_list_header csv_text_def comp_def)

lemma get_or_empty_distinct:
  assumes "distinct (map fst m)"
  shows "map (get_or_empty m) (map fst m) = map snd m"
proof -
  have "get_or_empty m (fst kv) = snd kv" if "kv \<in> set m" for kv
  proof -
    from that have "(fst kv, snd kv) \<in> set m" by simp
    with assms have "map_of m (fst kv) = Some (snd kv)" by (rule map_of_is_SomeI)
    then show ?thesis by (simp add: get_or_empty_def)
  qed
  then show ?thesis by simp
qed

lemma dict_to_list_uniform:
  "distinct (map fst m) \<Longrightarrow> dict_to_list (map fst m) m = Inr (map snd m)"
  by (simp add: dict_to_list_def get_or_empty_distinct del: map_map)

lemma csv_row_record:
  assumes "length m = 10"
  shows "csv_row (map csv_text (map snd m)) = record_row m"
proof -
  have "length (map csv_text (map snd m)) \<noteq> length [[] :: str]"
    using assms by simp
  then have "map csv_text (map snd m) \<noteq> [[]]" by metis
  then show ?thesis by (simp add: csv_row_def record_row_def comp_def)
qed

lemma writerows_all:
  assumes "\<forall>m \<in> set ms. length m = 10 \<and> map fst m = fieldnames"
    and "distinct fieldnames"
    and "utf8_encode (concat (map record_row ms)) = Some b"
  shows "writerows fieldnames ms buf = (None, buf @ b)"
  using assms
proof (induction ms arbitrary: buf b)
  case Nil
  then show ?case by simp
next
  case (Cons m ms)
  from Cons.prems(1) have m: "length m = 10" "map fst m = fieldnames" by simp_all
  from Cons.prems(3) obtain h t where h: "utf8_encode (record_row m) = Some h"
    and t: "utf8_encode (concat (map record_row ms)) = Some t" and b: "b = h @ t"
    by (auto simp: utf8_encode_append split: option.splits)
  have "dict_to_list fieldnames m = Inr (map snd m)"
    using dict_to_list_uniform [of m] m(2) Cons.prems(2) by simp
  then have "writerow fieldnames m buf = Inr (buf @ h)"
    by (simp add: writerow_def csv_row_record [OF m(1)] h del: map_map)
  moreover have "writerows fieldnames ms (buf @ h) = (None, (buf @ h) @ t)"
    using Cons.IH [of t "buf @ h"] Cons.prems(1,2) t by simp
  ultimately show ?case by (simp add: b)
qed

lemma encodable_header_row: "encodable header_row"
  by (simp add: header_row_text lit_def encodable_def scalar_value_def)

lemma encodable_record_row:
  assumes "\<forall>v \<in> set (map snd m). encodable (csv_text v)"
  shows "encodable (record_row m)"
proof -
  have "\<forall>x \<in> set (map (\<lambda>kv. csv_field (csv_text (snd kv))) m). encodable x"
    using assms encodable_csv_field by auto
  moreover have "encodable [59]" by (simp add: encodable_def scalar_ascii)
  ultimately have "encodable (join [59] (map (\<lambda>kv. csv_field (csv_text (snd kv))) m))"
    by (rule encodable_join [rotated])
  moreover have "encodable [13, 10]" by (simp add: encodable_def scalar_ascii)
  ultimately show ?thesis by (simp add: record_row_def encodable_append)
qed

lemma encodable_rows:
  "\<forall>m \<in> set ms. \<forall>v \<in> set (map snd m). encodable (csv_text v)
     \<Longrightarrow> encodable (concat (map record_row ms))"
proof (induction ms)
  case Nil
  show ?case by (simp add: encodable_def)
next
  case (Cons m ms)
  then show ?case by (simp add: encodable_append encodable_record_row)
qed

lemma write_csv_uniform:
  assumes "ms \<noteq> []"
    and "\<forall>m \<in> set ms. map fst m = field_names"
    and "\<forall>e. fs w output_file_name \<noteq> NoAccess e"
    and "utf8_encode (csv_file_text ms) = Some b"
  shows "write_csv ms output_file_name w = (None, put_file output_file_name b w)"
proof -
  from assms(4) obtain h t where h: "utf8_encode header_row = Some h"
    and t: "utf8_encode (concat (map record_row ms)) = Some t" and b: "b = h @ t"
    by (auto simp: csv_file_text_def utf8_encode_append split: option.splits)
  from assms(1) obtain first rest where ms: "ms = first # rest" by (cases ms) auto
  with assms(2) have keys: "map fst first = field_names" by simp
  have uniform: "\<forall>m \<in> set ms. length m = 10 \<and> map fst m = field_names"
    using assms(2) length_field_names by (metis length_map)
  have hdr: "writeheader field_names [] = Inr h"
    by (simp add: writeheader_eq csv_row_field_names h)
  have rows: "writerows field_names ms h = (None, h @ t)"
    by (rule writerows_all [OF uniform field_names_distinct t])
  show ?thesis
    using assms(3) hdr rows unfolding ms [symmetric] b
    by (cases "fs w output_file_name") (simp_all add: write_csv_def ms keys Let_def)
qed

text \<open>The line feeds of the file: one for each row, and those inside the values.\<close>

lemma count_join:
  "count_list (join [59] xs) 10 = sum_list (map (\<lambda>x. count_list x 10) xs)"
proof (induction xs rule: induct_list012)
  case 1 show ?case by simp
next
  case (2 x) show ?case by simp
next
  case (3 x y zs) then show ?case by simp
qed

lemma count_doubled:
  "count_list (concat (map (\<lambda>c. if c = 34 then [34, 34] else [c]) s)) 10 = count_list s (10::nat)"
  by (induction s) simp_all

lemma count_csv_field: "count_list (csv_field s) 10 = count_list s 10"
  by (simp add: csv_field_def count_doubled)

lemma record_row_line_feeds: "count_list (record_row m) 10 = 1 + line_feeds_in m"
  by (simp add: record_row_def line_feeds_in_def count_join count_csv_field comp_def)

lemma rows_line_feeds:
  "count_list (concat (map record_row ms)) 10 = length ms + sum_list (map line_feeds_in ms)"
  by (induction ms) (simp_all add: record_row_line_feeds)

lemma file_text_line_feeds:
  "count_list (csv_file_text ms) 10 = length ms + 1 + sum_list (map line_feeds_in ms)"
  by (simp add: csv_file_text_def rows_line_feeds header_row_text lit_def)

lemma line_feeds_none:
  "(sum_list (map line_feeds_in ms) = 0)
     = (\<forall>m \<in> set ms. \<forall>v \<in> set (map snd m). 10 \<notin> set (csv_text v))"
  by (auto simp: line_feeds_in_def count_list_0_iff)

text \<open>The file ends in the line terminator.\<close>

lemma utf8_encode_line_end: "utf8_encode (s @ [13, 10]) = Some b \<Longrightarrow> last b = 10"
  by (auto simp: utf8_encode_append utf8_encode_cp_def split: option.splits)

lemma file_text_end: "\<exists>s. csv_file_text ms = s @ [13, 10]"
proof (cases ms rule: rev_cases)
  case Nil
  then show ?thesis by (simp add: csv_file_text_def header_row_def)
next
  case (snoc ms' m)
  have "csv_file_text ms = (header_row @ concat (map record_row ms')
      @ join [59] (map (\<lambda>kv. csv_field (csv_text (snd kv))) m)) @ [13, 10]"
    by (simp add: snoc csv_file_text_def record_row_def)
  then show ?thesis by blast
qed

text \<open>
  Re-reading. A field as the writer writes it is read back as the field, whatever it
  holds, and so is a row and a sequence of rows.
\<close>

lemma read_plain:
  "\<forall>c \<in> set s. c \<noteq> 59 \<and> c \<noteq> 34 \<and> c \<noteq> 13 \<and> c \<noteq> 10 \<Longrightarrow>
     foldl read_char (In_field, f, row, rows) s = (In_field, f @ s, row, rows)"
  by (induction s arbitrary: f) simp_all

lemma read_quoted:
  "foldl read_char (In_quoted, f, row, rows)
       (concat (map (\<lambda>c. if c = 34 then [34, 34] else [c]) s))
     = (In_quoted, f @ s, row, rows)"
  by (induction s arbitrary: f) simp_all

lemma read_field_delimiter:
  "foldl read_char (Start_field, [], row, rows) (csv_field s @ 59 # rest)
     = foldl read_char (Start_field, [], row @ [s], rows) rest"
proof (cases "needs_quote s")
  case True
  then show ?thesis by (simp add: csv_field_def read_quoted)
next
  case False
  then have plain: "\<forall>c \<in> set s. c \<noteq> 59 \<and> c \<noteq> 34 \<and> c \<noteq> 13 \<and> c \<noteq> 10"
    by (auto simp: needs_quote_def)
  show ?thesis
  proof (cases s)
    case Nil
    with False show ?thesis by (simp add: csv_field_def)
  next
    case (Cons c cs)
    with plain have "c \<noteq> 59 \<and> c \<noteq> 34 \<and> c \<noteq> 13 \<and> c \<noteq> 10"
      and "\<forall>c \<in> set cs. c \<noteq> 59 \<and> c \<noteq> 34 \<and> c \<noteq> 13 \<and> c \<noteq> 10" by simp_all
    with False Cons show ?thesis by (simp add: csv_field_def read_plain)
  qed
qed

lemma read_first_field_delimiter:
  "foldl read_char (Start_record, [], [], rows) (csv_field s @ 59 # rest)
     = foldl read_char (Start_field, [], [s], rows) rest"
proof (cases "needs_quote s")
  case True
  then show ?thesis by (simp add: csv_field_def start_record_def read_quoted)
next
  case False
  then have plain: "\<forall>c \<in> set s. c \<noteq> 59 \<and> c \<noteq> 34 \<and> c \<noteq> 13 \<and> c \<noteq> 10"
    by (auto simp: needs_quote_def)
  show ?thesis
  proof (cases s)
    case Nil
    with False show ?thesis by (simp add: csv_field_def start_record_def)
  next
    case (Cons c cs)
    with plain have "c \<noteq> 59 \<and> c \<noteq> 34 \<and> c \<noteq> 13 \<and> c \<noteq> 10"
      and "\<forall>c \<in> set cs. c \<noteq> 59 \<and> c \<noteq> 34 \<and> c \<noteq> 13 \<and> c \<noteq> 10" by simp_all
    with False Cons show ?thesis by (simp add: csv_field_def start_record_def read_plain)
  qed
qed

lemma read_field_end:
  "foldl read_char (Start_field, [], row, rows) (csv_field s @ 13 # 10 # rest)
     = foldl read_char (Start_record, [], [], rows @ [row @ [s]]) rest"
proof (cases "needs_quote s")
  case True
  then show ?thesis by (simp add: csv_field_def read_quoted)
next
  case False
  then have plain: "\<forall>c \<in> set s. c \<noteq> 59 \<and> c \<noteq> 34 \<and> c \<noteq> 13 \<and> c \<noteq> 10"
    by (auto simp: needs_quote_def)
  show ?thesis
  proof (cases s)
    case Nil
    with False show ?thesis by (simp add: csv_field_def)
  next
    case (Cons c cs)
    with plain have "c \<noteq> 59 \<and> c \<noteq> 34 \<and> c \<noteq> 13 \<and> c \<noteq> 10"
      and "\<forall>c \<in> set cs. c \<noteq> 59 \<and> c \<noteq> 34 \<and> c \<noteq> 13 \<and> c \<noteq> 10" by simp_all
    with False Cons show ?thesis by (simp add: csv_field_def read_plain)
  qed
qed

lemma read_only_field_end:
  assumes "s \<noteq> []"
  shows "foldl read_char (Start_record, [], [], rows) (csv_field s @ 13 # 10 # rest)
     = foldl read_char (Start_record, [], [], rows @ [[s]]) rest"
proof (cases "needs_quote s")
  case True
  then show ?thesis by (simp add: csv_field_def start_record_def read_quoted)
next
  case False
  then have plain: "\<forall>c \<in> set s. c \<noteq> 59 \<and> c \<noteq> 34 \<and> c \<noteq> 13 \<and> c \<noteq> 10"
    by (auto simp: needs_quote_def)
  from assms obtain c cs where Cons: "s = c # cs" by (cases s) auto
  with plain have "c \<noteq> 59 \<and> c \<noteq> 34 \<and> c \<noteq> 13 \<and> c \<noteq> 10"
    and "\<forall>c \<in> set cs. c \<noteq> 59 \<and> c \<noteq> 34 \<and> c \<noteq> 13 \<and> c \<noteq> 10" by simp_all
  with False Cons show ?thesis by (simp add: csv_field_def start_record_def read_plain)
qed

lemma read_fields:
  "vs \<noteq> [] \<Longrightarrow>
     foldl read_char (Start_field, [], row, rows) (join [59] (map csv_field vs) @ 13 # 10 # rest)
       = foldl read_char (Start_record, [], [], rows @ [row @ vs]) rest"
proof (induction vs arbitrary: row rule: induct_list012)
  case 1
  then show ?case by simp
next
  case (2 v)
  show ?case using read_field_end [of row rows v rest] by simp
next
  case (3 v v' vs)
  have "foldl read_char (Start_field, [], row, rows)
          (join [59] (map csv_field (v # v' # vs)) @ 13 # 10 # rest)
      = foldl read_char (Start_field, [], row, rows)
          (csv_field v @ 59 # (join [59] (map csv_field (v' # vs)) @ 13 # 10 # rest))"
    by simp
  also have "\<dots> = foldl read_char (Start_field, [], row @ [v], rows)
          (join [59] (map csv_field (v' # vs)) @ 13 # 10 # rest)"
    by (rule read_field_delimiter)
  also have "\<dots> = foldl read_char (Start_record, [], [], rows @ [(row @ [v]) @ v' # vs]) rest"
    by (rule "3.IH"(2)) simp
  finally show ?case by simp
qed

lemma read_row:
  assumes "vs \<noteq> []"
  shows "foldl read_char (Start_record, [], [], rows) (csv_row vs @ rest)
       = foldl read_char (Start_record, [], [], rows @ [vs]) rest"
proof -
  from assms consider (2) v where "vs = [v]" | (3) v v' vs' where "vs = v # v' # vs'"
    by (cases vs; cases "tl vs") auto
  then show ?thesis
  proof cases
  case (2 v)
  show ?thesis
  proof (cases "v = []")
    case True
    with 2 show ?thesis by (simp add: csv_row_def start_record_def)
  next
    case False
    with 2 read_only_field_end [OF False, where rows = rows and rest = rest] show ?thesis
      by (simp add: csv_row_def)
  qed
next
  case (3 v v' vs')
  have "foldl read_char (Start_record, [], [], rows) (csv_row vs @ rest)
      = foldl read_char (Start_record, [], [], rows)
          (csv_field v @ 59 # (join [59] (map csv_field (v' # vs')) @ 13 # 10 # rest))"
    by (simp add: 3 csv_row_def)
  also have "\<dots> = foldl read_char (Start_field, [], [v], rows)
          (join [59] (map csv_field (v' # vs')) @ 13 # 10 # rest)"
    by (rule read_first_field_delimiter)
  also have "\<dots> = foldl read_char (Start_record, [], [], rows @ [[v] @ v' # vs']) rest"
    by (rule read_fields) simp
  finally show ?thesis by (simp add: 3)
  qed
qed

lemma read_rows:
  "\<forall>vs \<in> set table. vs \<noteq> [] \<Longrightarrow>
     foldl read_char (Start_record, [], [], rows) (concat (map csv_row table))
       = (Start_record, [], [], rows @ table)"
proof (induction table arbitrary: rows)
  case Nil
  show ?case by simp
next
  case (Cons vs table)
  from Cons.prems have "vs \<noteq> []" and rest: "\<forall>vs \<in> set table. vs \<noteq> []" by simp_all
  from read_row [OF this(1), of rows "concat (map csv_row table)"] Cons.IH [OF rest]
  show ?case by simp
qed

lemma read_csv_rows: "\<forall>vs \<in> set table. vs \<noteq> [] \<Longrightarrow> read_csv (concat (map csv_row table)) = table"
  by (simp add: read_csv_def read_rows)

lemma file_text_rows:
  assumes "\<forall>m \<in> set ms. length m = 10"
  shows "csv_file_text ms
     = concat (map csv_row (field_names # map (map (\<lambda>kv. csv_text (snd kv))) ms))"
proof -
  have "map record_row ms = map csv_row (map (map (\<lambda>kv. csv_text (snd kv))) ms)"
    using assms csv_row_record by (auto simp: comp_def)
  then show ?thesis by (simp add: csv_file_text_def csv_row_field_names del: map_map)
qed

lemma read_csv_file_text:
  assumes "\<forall>m \<in> set ms. length m = 10"
  shows "read_csv (csv_file_text ms) = field_names # map (map (\<lambda>kv. csv_text (snd kv))) ms"
proof -
  have "\<forall>vs \<in> set (field_names # map (map (\<lambda>kv. csv_text (snd kv))) ms). vs \<noteq> []"
    using assms by (auto simp: field_names_def)
  from read_csv_rows [OF this] file_text_rows [OF assms] show ?thesis by simp
qed

text \<open>The files of the examples.\<close>

lemma report_csv_encoded: "utf8_encode (csv_file_text [report_record]) = Some report_csv"
  by (simp add: report_record_def report_csv_def csv_file_text_def header_row_text
      record_row_def csv_field_def needs_quote_def csv_text_def
      lit_def octets_def utf8_encode_cp_def)

lemma empty_world_fs: "fs empty_world p = Absent"
  by (simp add: empty_world_def)

text \<open>
  C6. The claim is that N uniform records always give a file of exactly N+1
  newline-terminated lines. A value that holds a line feed is written with it, between
  quotes: one record with such a title gives a file with three line feeds. A value
  that cannot be encoded stops the write with \<open>UnicodeEncodeError\<close> after the header:
  one record gives a file of one line. And a path that cannot be opened gives no file
  at all.
\<close>

theorem write_csv_line_count_counterexample:
  "write_csv [newline_record] (lit ''out.csv'') empty_world
     = (None, put_file (lit ''out.csv'') newline_csv empty_world)
   \<and> newline_count (File newline_csv) = 3
   \<and> write_csv [surrogate_record] (lit ''out.csv'') empty_world
     = (Some UnicodeEncodeError, put_file (lit ''out.csv'') header_csv empty_world)
   \<and> newline_count (File header_csv) = 1
   \<and> write_csv [report_record] (lit ''out.csv'') locked_world
     = (Some PermissionError, locked_world)"
proof -
  have "write_csv [newline_record] (lit ''out.csv'') empty_world
     = (None, put_file (lit ''out.csv'') newline_csv empty_world)"
    by (simp add: write_csv_def newline_record_def newline_csv_def empty_world_fs
        writeheader_def writerow_def dict_to_list_def get_or_empty_def csv_text_def csv_row_def
        csv_field_def needs_quote_def lit_def octets_def utf8_encode_cp_def)
  moreover have "newline_count (File newline_csv) = 3"
    by (simp add: newline_count_def newline_csv_def octets_def)
  moreover have "write_csv [surrogate_record] (lit ''out.csv'') empty_world
     = (Some UnicodeEncodeError, put_file (lit ''out.csv'') header_csv empty_world)"
    by (simp add: write_csv_def surrogate_record_def header_csv_def empty_world_fs
        writeheader_def writerow_def dict_to_list_def get_or_empty_def csv_text_def csv_row_def
        csv_field_def needs_quote_def lit_def octets_def utf8_encode_cp_def)
  moreover have "newline_count (File header_csv) = 1"
    by (simp add: newline_count_def header_csv_def octets_def)
  moreover have "write_csv [report_record] (lit ''out.csv'') locked_world
     = (Some PermissionError, locked_world)"
    by (simp add: write_csv_def report_record_def locked_world_def)
  ultimately show ?thesis by blast
qed

text \<open>
  C6, amended. For a nonempty list of N records with the ten keys in the fixed order,
  whose values can be encoded, and an output path that can be opened: \<open>write_csv\<close>
  returns and the file is the encoding of the header row followed by one row per record
  in the order of the list. The header row is the ten field names joined by \<open>;\<close>.
  Re-reading the text gives N+1 rows: the ten field names, then for each record its
  values in key order, each as the text it had. The file ends in a line feed and holds
  N+1 line feeds and one more for every line feed inside a value: it has N+1 lines
  exactly when no value holds a line feed.
\<close>

theorem write_csv_uniform_records:
  assumes "ms \<noteq> []"
    and "\<forall>m \<in> set ms. map fst m = field_names"
    and "\<forall>m \<in> set ms. \<forall>v \<in> set (map snd m). encodable (csv_text v)"
    and "\<forall>e. fs w output_file_name \<noteq> NoAccess e"
  shows "\<exists>b. utf8_encode (csv_file_text ms) = Some b
    \<and> write_csv ms output_file_name w = (None, put_file output_file_name b w)
    \<and> csv_file_text ms = lit ''Title;Author;Creator;Created;Modified;Subject;Keywords;Description;Producer;PDF Version''
         @ [13, 10] @ concat (map record_row ms)
    \<and> read_csv (csv_file_text ms) = field_names # map (map (\<lambda>kv. csv_text (snd kv))) ms
    \<and> length (read_csv (csv_file_text ms)) = length ms + 1
    \<and> last b = 10
    \<and> newline_count (File b) = length ms + 1 + sum_list (map line_feeds_in ms)
    \<and> ((newline_count (File b) = length ms + 1)
         = (\<forall>m \<in> set ms. \<forall>v \<in> set (map snd m). 10 \<notin> set (csv_text v)))"
proof -
  have "encodable (csv_file_text ms)"
    using encodable_rows [OF assms(3)]
    by (simp add: csv_file_text_def encodable_append encodable_header_row)
  then obtain b where b: "utf8_encode (csv_file_text ms) = Some b"
    using utf8_encode_encodable [of "csv_file_text ms"] by blast
  have written: "write_csv ms output_file_name w = (None, put_file output_file_name b w)"
    by (rule write_csv_uniform [OF assms(1) assms(2) assms(4) b])
  have ten: "\<forall>m \<in> set ms. length m = 10"
    using assms(2) length_field_names by (metis length_map)
  have header: "csv_file_text ms = lit ''Title;Author;Creator;Created;Modified;Subject;Keywords;Description;Producer;PDF Version''
         @ [13, 10] @ concat (map record_row ms)"
    by (simp add: csv_file_text_def header_row_text)
  have reading: "read_csv (csv_file_text ms)
      = field_names # map (map (\<lambda>kv. csv_text (snd kv))) ms"
    by (rule read_csv_file_text [OF ten])
  then have rows: "length (read_csv (csv_file_text ms)) = length ms + 1" by simp
  from file_text_end [of ms] obtain s where "csv_file_text ms = s @ [13, 10]" by blast
  with b have ending: "last b = 10" by (simp add: utf8_encode_line_end)
  have feeds: "newline_count (File b) = length ms + 1 + sum_list (map line_feeds_in ms)"
    using utf8_encode_newlines [OF b] by (simp add: newline_count_def file_text_line_feeds)
  from feeds line_feeds_none [of ms]
  have lines: "(newline_count (File b) = length ms + 1)
         = (\<forall>m \<in> set ms. \<forall>v \<in> set (map snd m). 10 \<notin> set (csv_text v))"
    by simp
  from b written header reading rows ending feeds lines show ?thesis by blast
qed

theorem write_csv_uniform_records_witness:
  "write_csv [report_record] (lit ''out.csv'') empty_world =
     (None, put_file (lit ''out.csv'') report_csv empty_world)
   \<and> read_csv (csv_file_text [report_record]) =
       [field_names,
        [lit ''Report'', [], [], [], [], [], [], [], [], lit ''1.4'']]
   \<and> newline_count (File report_csv) = 2"
proof -
  have 1: "[report_record] \<noteq> []" by simp
  have 2: "\<forall>m \<in> set [report_record]. map fst m = field_names"
    by (simp add: report_record_def field_names_def)
  have 3: "\<forall>m \<in> set [report_record]. \<forall>v \<in> set (map snd m). encodable (csv_text v)"
    by (simp add: report_record_def csv_text_def encodable_def scalar_value_def lit_def)
  have 4: "\<forall>e. fs empty_world (lit ''out.csv'') \<noteq> NoAccess e"
    by (simp add: empty_world_def)
  have 5: "sum_list (map line_feeds_in [report_record]) = 0"
    by (simp add: line_feeds_in_def report_record_def csv_text_def lit_def)
  have 6: "map (map (\<lambda>kv. csv_text (snd kv))) [report_record]
      = [[lit ''Report'', [], [], [], [], [], [], [], [], lit ''1.4'']]"
    by (simp add: report_record_def csv_text_def)
  from write_csv_uniform_records [OF 1 2 3 4] report_csv_encoded 5 6
  show ?thesis by auto
qed

section \<open>Properties of the Aggregator\<close>

text \<open>What is printed does not change what a later extraction reads.\<close>

lemma open_rb_fs: "fs w' p = fs w p \<Longrightarrow> open_rb w' p = open_rb w p"
  by (simp add: open_rb_def)

lemma extract_pdf_version_fs:
  "fs w' p = fs w p \<Longrightarrow> extract_pdf_version w' p = extract_pdf_version w p"
  by (simp add: extract_pdf_version_def open_rb_fs [of w' p w])

lemma build_metadata_fs:
  assumes "fs w' p = fs w p"
  shows "build_metadata w' p info = build_metadata w p info"
  unfolding build_metadata_def extract_pdf_version_fs [OF assms] by (rule refl)

lemma extract_metadata_try_fs:
  assumes "fs w' p = fs w p"
  shows "extract_metadata_try PdfReader w' p = extract_metadata_try PdfReader w p"
  unfolding extract_metadata_try_def open_rb_fs [OF assms] build_metadata_fs [OF assms]
  by (rule refl)

lemma extract_metadata_try_stdout:
  "extract_metadata_try PdfReader (w\<lparr>stdout := s\<rparr>) p = extract_metadata_try PdfReader w p"
  by (rule extract_metadata_try_fs) simp

lemma parsed_stdout: "parsed PdfReader (w\<lparr>stdout := s\<rparr>) ps = parsed PdfReader w ps"
  unfolding parsed_def extract_metadata_try_stdout by (rule refl)

lemma failed_stdout: "failed PdfReader (w\<lparr>stdout := s\<rparr>) ps = failed PdfReader w ps"
  unfolding failed_def extract_metadata_try_stdout by (rule refl)

lemma parsed_append: "parsed PdfReader w (ps @ qs) = parsed PdfReader w ps @ parsed PdfReader w qs"
  by (simp add: parsed_def)

lemma failed_append: "failed PdfReader w (ps @ qs) = failed PdfReader w ps @ failed PdfReader w qs"
  by (simp add: failed_def)

lemma parsed_Cons: "parsed PdfReader w (p # ps) = parsed PdfReader w [p] @ parsed PdfReader w ps"
  by (simp add: parsed_def)

lemma failed_Cons: "failed PdfReader w (p # ps) = failed PdfReader w [p] @ failed PdfReader w ps"
  by (simp add: failed_def)

lemma parsed_keys: "m \<in> set (parsed PdfReader w ps) \<Longrightarrow> map fst m = field_names"
  by (auto simp: parsed_def split: sum.splits dest: extract_metadata_try_keys [OF sym])

lemma extract_metadata_try_nonempty: "extract_metadata_try PdfReader w p = Inr m \<Longrightarrow> m \<noteq> []"
  using extract_metadata_try_keys [of PdfReader w p m] by (auto simp: field_names_def)

text \<open>
  When standard output takes the error lines, the loops collect the records of the
  successful paths in the order of the walk and print the error lines of the others;
  nothing else of the world changes.
\<close>

lemma scan_files_eq:
  "\<forall>l \<in> set (failed PdfReader w (pdf_files root names)). stdout_error w l = None \<Longrightarrow>
   scan_files PdfReader root names (acc, w) =
     (Inr (acc @ parsed PdfReader w (pdf_files root names)),
      w\<lparr>stdout := stdout w @ failed PdfReader w (pdf_files root names)\<rparr>)"
proof (induction names arbitrary: acc w)
  case Nil
  show ?case by (simp add: parsed_def failed_def pdf_files_def)
next
  case (Cons name names)
  show ?case
  proof (cases "endswith (lower name) (lit ''.pdf'')")
    case False
    then have same: "pdf_files root (name # names) = pdf_files root names"
      by (simp add: pdf_files_def)
    from Cons.prems have "\<forall>l \<in> set (failed PdfReader w (pdf_files root names)).
        stdout_error w l = None"
      by (simp add: same)
    from Cons.IH [OF this] False show ?thesis by (simp add: same)
  next
    case True
    then have "pdf_files root (name # names) = path_join root name # pdf_files root names"
      by (simp add: pdf_files_def)
    then have more:
      "parsed PdfReader w (pdf_files root (name # names))
         = parsed PdfReader w [path_join root name] @ parsed PdfReader w (pdf_files root names)"
      "failed PdfReader w (pdf_files root (name # names))
         = failed PdfReader w [path_join root name] @ failed PdfReader w (pdf_files root names)"
      by (simp_all only: parsed_Cons [symmetric] failed_Cons [symmetric])
    show ?thesis
    proof (cases "extract_metadata_try PdfReader w (path_join root name)")
      case (Inl e)
      then have one: "parsed PdfReader w [path_join root name] = []"
        "failed PdfReader w [path_join root name] = [diagnostic (path_join root name) e]"
        by (simp_all add: parsed_def failed_def)
      from Cons.prems have taken: "stdout_error w (diagnostic (path_join root name) e) = None"
        and rest: "\<forall>l \<in> set (failed PdfReader w (pdf_files root names)). stdout_error w l = None"
        by (simp_all add: more one)
      let ?w' = "w\<lparr>stdout := stdout w @ [diagnostic (path_join root name) e]\<rparr>"
      have step: "extract_metadata PdfReader (path_join root name) w = (Inr None, ?w')"
        by (rule extract_metadata_reports [OF Inl taken])
      have "\<forall>l \<in> set (failed PdfReader ?w' (pdf_files root names)). stdout_error ?w' l = None"
        using rest by (simp add: failed_stdout)
      from Cons.IH [OF this, of acc] step True show ?thesis
        by (simp add: more one truthy_def parsed_stdout failed_stdout)
    next
      case (Inr m)
      then have one: "parsed PdfReader w [path_join root name] = [m]"
        "failed PdfReader w [path_join root name] = []"
        by (simp_all add: parsed_def failed_def)
      from Cons.prems have rest:
        "\<forall>l \<in> set (failed PdfReader w (pdf_files root names)). stdout_error w l = None"
        by (simp add: more one)
      have step: "extract_metadata PdfReader (path_join root name) w = (Inr (Some m), w)"
        by (rule extract_metadata_returns [OF Inr])
      from Cons.IH [OF rest, of "acc @ [m]"] step True extract_metadata_try_nonempty [OF Inr]
      show ?thesis
        by (simp add: more one truthy_def)
    qed
  qed
qed

lemma scan_walk_eq:
  "\<forall>l \<in> set (failed PdfReader w (pdf_paths tree)). stdout_error w l = None \<Longrightarrow>
   scan_walk PdfReader tree (acc, w) =
     (Inr (acc @ parsed PdfReader w (pdf_paths tree)),
      w\<lparr>stdout := stdout w @ failed PdfReader w (pdf_paths tree)\<rparr>)"
proof (induction tree arbitrary: acc w)
  case Nil
  show ?case by (simp add: pdf_paths_def parsed_def failed_def)
next
  case (Cons t tree)
  obtain root dirs files where t: "t = (root, dirs, files)" by (cases t)
  have paths: "pdf_paths ((root, dirs, files) # tree) = pdf_files root files @ pdf_paths tree"
    by (simp add: pdf_paths_def)
  from Cons.prems [unfolded t] have here: "\<forall>l \<in> set (failed PdfReader w (pdf_files root files)).
      stdout_error w l = None"
    and rest: "\<forall>l \<in> set (failed PdfReader w (pdf_paths tree)). stdout_error w l = None"
    by (simp_all add: paths failed_append)
  let ?w' = "w\<lparr>stdout := stdout w @ failed PdfReader w (pdf_files root files)\<rparr>"
  have "\<forall>l \<in> set (failed PdfReader ?w' (pdf_paths tree)). stdout_error ?w' l = None"
    using rest by (simp add: failed_stdout)
  from Cons.IH [OF this, of "acc @ parsed PdfReader w (pdf_files root files)"]
    scan_files_eq [OF here, of acc]
  show ?case
    by (simp add: t paths parsed_append failed_append parsed_stdout failed_stdout)
qed

lemma parsed_length:
  "length (parsed PdfReader w ps)
     = length (filter (\<lambda>p. \<not> isl (extract_metadata_try PdfReader w p)) ps)"
  by (induction ps) (auto simp: parsed_def split: sum.splits)

lemma parsed_empty:
  "parsed PdfReader w ps = [] \<longleftrightarrow> (\<forall>p \<in> set ps. isl (extract_metadata_try PdfReader w p))"
  by (induction ps) (auto simp: parsed_def split: sum.splits)

text \<open>Whatever standard output does, a record that the loops collect has the ten keys.\<close>

lemma scan_files_keys:
  "scan_files PdfReader root names (acc, w) = (Inr ms, w') \<Longrightarrow>
   \<forall>m \<in> set acc. map fst m = field_names \<Longrightarrow> \<forall>m \<in> set ms. map fst m = field_names"
proof (induction names arbitrary: acc w)
  case Nil
  then show ?case by simp
next
  case (Cons name names)
  show ?case
  proof (cases "endswith (lower name) (lit ''.pdf'')")
    case False
    with Cons.prems(1) have "scan_files PdfReader root names (acc, w) = (Inr ms, w')" by simp
    from Cons.IH [OF this Cons.prems(2)] show ?thesis .
  next
    case True
    obtain r w1 where step: "extract_metadata PdfReader (path_join root name) w = (r, w1)"
      by (cases "extract_metadata PdfReader (path_join root name) w")
    show ?thesis
    proof (cases r)
      case (Inl e)
      with Cons.prems(1) True step show ?thesis by simp
    next
      case (Inr md)
      show ?thesis
      proof (cases "truthy md")
        case False
        with Cons.prems(1) True step Inr
        have "scan_files PdfReader root names (acc, w1) = (Inr ms, w')" by simp
        from Cons.IH [OF this Cons.prems(2)] show ?thesis .
      next
        case yes: True
        then obtain m where md: "md = Some m" by (cases md) (auto simp: truthy_def)
        from step Inr md have "map fst m = field_names"
          by (auto dest: extract_metadata_keys)
        with Cons.prems(2) have all: "\<forall>x \<in> set (acc @ [m]). map fst x = field_names" by simp
        from Cons.prems(1) True step Inr yes md
        have "scan_files PdfReader root names (acc @ [m], w1) = (Inr ms, w')" by simp
        from Cons.IH [OF this all] show ?thesis .
      qed
    qed
  qed
qed

lemma scan_walk_keys:
  "scan_walk PdfReader tree (acc, w) = (Inr ms, w') \<Longrightarrow>
   \<forall>m \<in> set acc. map fst m = field_names \<Longrightarrow> \<forall>m \<in> set ms. map fst m = field_names"
proof (induction tree arbitrary: acc w)
  case Nil
  then show ?case by simp
next
  case (Cons t tree)
  obtain root dirs files where t: "t = (root, dirs, files)" by (cases t)
  obtain r w1 where step: "scan_files PdfReader root files (acc, w) = (r, w1)"
    by (cases "scan_files PdfReader root files (acc, w)")
  show ?case
  proof (cases r)
    case (Inl e)
    with Cons.prems(1) t step show ?thesis by simp
  next
    case (Inr acc')
    from scan_files_keys [OF step [unfolded Inr] Cons.prems(2)]
    have all: "\<forall>m \<in> set acc'. map fst m = field_names" .
    from Cons.prems(1) t step Inr have "scan_walk PdfReader tree (acc', w1) = (Inr ms, w')" by simp
    from Cons.IH [OF this all] show ?thesis .
  qed
qed

text \<open>\<open>write_csv\<close> changes nothing of standard output.\<close>

lemma write_csv_stdout:
  "write_csv ms output_file_name w = (r, w') \<Longrightarrow>
     stdout w' = stdout w \<and> stdout_error w' = stdout_error w"
  by (auto simp: write_csv_def put_file_def Let_def
      split: list.splits node.splits sum.splits prod.splits)

text \<open>The directories of the examples.\<close>

lemma docs_stdout: "stdout docs_world = []" "stdout_error docs_world l = None"
  by (simp_all add: docs_world_def)

lemma docs_paths:
  "pdf_paths (walk docs_world (lit ''docs'')) = [lit ''docs/doc.PDF'', lit ''docs/scan.pdf'']"
  by (simp add: docs_world_def pdf_paths_def pdf_files_def path_join_def startswith_def
      endswith_def lower_def lower_cp_def lit_def)

lemma docs_doc_version:
  "extract_pdf_version docs_world (lit ''docs/doc.PDF'') = Inr (lit ''1.4'')"
  by (simp add: docs_world_def extract_pdf_version_def open_rb_def octets_def
      decode_def utf8_first_def startswith_def lit_def strip_def lstrip_def rstrip_def isspace_def)

lemma docs_scan_version:
  "extract_pdf_version docs_world (lit ''docs/scan.pdf'') = Inl UnicodeDecodeError"
  by (simp add: docs_world_def extract_pdf_version_def open_rb_def
      decode_def utf8_first_def lit_def)

lemma docs_open:
  "open_rb docs_world (lit ''docs/doc.PDF'') = Inr (octets ''%PDF-1.4 1 0 obj'')"
  "open_rb docs_world (lit ''docs/scan.pdf'') =
     Inr [0x89, 0x50, 0x4E, 0x47, 0x0D, 0x0A, 0x1A, 0x0A, 0x00, 0x00, 0x00, 0x0D]"
  by (simp_all add: docs_world_def open_rb_def lit_def)

lemma docs_plain:
  "extract_metadata_try plain_library docs_world (lit ''docs/doc.PDF'') = Inr report_record"
  "extract_metadata_try plain_library docs_world (lit ''docs/scan.pdf'') = Inl UnicodeDecodeError"
  by (simp_all add: extract_metadata_try_def build_metadata_def docs_open docs_doc_version
      docs_scan_version plain_library_def plain_info_def report_record_def
      text_or_empty_def date_or_empty_def get_or_empty_def)

lemma docs_no_info:
  "extract_metadata_try no_info_library docs_world (lit ''docs/doc.PDF'') = Inl AttributeError"
  "extract_metadata_try no_info_library docs_world (lit ''docs/scan.pdf'') = Inl AttributeError"
  by (simp_all add: extract_metadata_try_def docs_open no_info_library_def)

lemma docs_successes:
  "successes plain_library docs_world (lit ''docs'') = [report_record]"
  "error_lines plain_library docs_world (lit ''docs'')
     = [diagnostic (lit ''docs/scan.pdf'') UnicodeDecodeError]"
  "successes no_info_library docs_world (lit ''docs'') = []"
  "error_lines no_info_library docs_world (lit ''docs'')
     = [diagnostic (lit ''docs/doc.PDF'') AttributeError,
        diagnostic (lit ''docs/scan.pdf'') AttributeError]"
  by (simp_all add: successes_def error_lines_def parsed_def failed_def docs_paths
      docs_plain docs_no_info)

lemma locked_world_parts:
  "walk locked_world = walk docs_world" "stdout locked_world = []"
  "stdout_error locked_world l = None"
  "fs locked_world (lit ''docs/doc.PDF'') = fs docs_world (lit ''docs/doc.PDF'')"
  "fs locked_world (lit ''docs/scan.pdf'') = fs docs_world (lit ''docs/scan.pdf'')"
  "fs locked_world (lit ''out.csv'') = NoAccess PermissionError"
  by (simp_all add: locked_world_def docs_stdout lit_def)

lemma locked_successes:
  "successes plain_library locked_world (lit ''docs'') = [report_record]"
  "error_lines plain_library locked_world (lit ''docs'')
     = [diagnostic (lit ''docs/scan.pdf'') UnicodeDecodeError]"
  by (simp_all add: successes_def error_lines_def parsed_def failed_def locked_world_parts
      docs_paths extract_metadata_try_fs [OF locked_world_parts(4)]
      extract_metadata_try_fs [OF locked_world_parts(5)] docs_plain)

text \<open>
  C5. The claim is that, some extraction having succeeded, the success message reports
  the count. The message is printed after \<open>write_csv\<close> has returned: with an output
  path that cannot be opened, one of the two candidate files is parsed, \<open>write_csv\<close>
  raises, the exception leaves \<open>process_directory\<close>, and the output holds the error
  line of the other file and no message.
\<close>

theorem process_directory_write_raises:
  "successes plain_library locked_world (lit ''docs'') = [report_record]
   \<and> process_directory plain_library (lit ''docs'') (lit ''out.csv'') locked_world
     = (Some PermissionError,
        locked_world\<lparr>stdout :=
          [[Text (lit ''Error processing file docs/scan.pdf: ''), Str_exn UnicodeDecodeError]]\<rparr>)"
proof -
  have taken: "\<forall>l \<in> set (failed plain_library locked_world (pdf_paths (walk locked_world (lit ''docs'')))).
      stdout_error locked_world l = None"
    by (simp add: locked_world_parts)
  have scan: "scan_walk plain_library (walk locked_world (lit ''docs'')) ([], locked_world)
      = (Inr [report_record], locked_world\<lparr>stdout :=
          [diagnostic (lit ''docs/scan.pdf'') UnicodeDecodeError]\<rparr>)"
    using scan_walk_eq [OF taken, of "[]"] locked_successes
    by (simp add: successes_def error_lines_def locked_world_parts)
  have "process_directory plain_library (lit ''docs'') (lit ''out.csv'') locked_world
     = (Some PermissionError,
        locked_world\<lparr>stdout := [diagnostic (lit ''docs/scan.pdf'') UnicodeDecodeError]\<rparr>)"
    by (simp add: process_directory_def scan write_csv_def report_record_def
        locked_world_parts(6))
  with locked_successes(1) show ?thesis by (simp add: diagnostic_def lit_def)
qed

text \<open>
  C5, amended. In directory mode, standard output taking the error lines of the files
  whose extraction fails: when no extraction succeeds (no file has a name ending in
  \<open>.pdf\<close> in any letter case, or every extraction fails) and standard output takes the
  line, \<open>process_directory\<close> prints \<open>No pdf files found in directory.\<close> after the error
  lines and changes nothing but the output, so no file is written. When some extraction
  succeeds, it calls \<open>write_csv\<close> with the records of the successful extractions; when
  that returns and standard output takes the line, it prints
  \<open>Metadata from {n} files was saved in {output}.\<close> after the error lines, \<open>n\<close> being
  the number of paths whose extraction succeeded; when \<open>write_csv\<close> raises, the
  exception leaves \<open>process_directory\<close> and no message is printed.
\<close>

theorem process_directory_messages:
  assumes "\<forall>l \<in> set (error_lines PdfReader w d). stdout_error w l = None"
  shows
  "(successes PdfReader w d = []
      \<and> stdout_error w [Text (lit ''No pdf files found in directory.'')] = None \<longrightarrow>
      process_directory PdfReader d out w =
        (None, w\<lparr>stdout := stdout w @ error_lines PdfReader w d
                   @ [[Text (lit ''No pdf files found in directory.'')]]\<rparr>))
   \<and> (successes PdfReader w d \<noteq> []
        \<and> write_csv (successes PdfReader w d) out
            (w\<lparr>stdout := stdout w @ error_lines PdfReader w d\<rparr>) = (None, w2)
        \<and> stdout_error w [Text (lit ''Metadata from ''),
             Str_int (length (successes PdfReader w d)),
             Text (lit '' files was saved in '' @ out @ lit ''.'')] = None \<longrightarrow>
      process_directory PdfReader d out w =
        (None, w2\<lparr>stdout := stdout w @ error_lines PdfReader w d
                    @ [[Text (lit ''Metadata from ''),
                        Str_int (length (successes PdfReader w d)),
                        Text (lit '' files was saved in '' @ out @ lit ''.'')]]\<rparr>))
   \<and> (successes PdfReader w d \<noteq> []
        \<and> write_csv (successes PdfReader w d) out
            (w\<lparr>stdout := stdout w @ error_lines PdfReader w d\<rparr>) = (Some e, w2) \<longrightarrow>
      process_directory PdfReader d out w = (Some e, w2)
      \<and> stdout w2 = stdout w @ error_lines PdfReader w d)
   \<and> (successes PdfReader w d = [] \<longleftrightarrow>
        (\<forall>p \<in> set (pdf_paths (walk w d)). isl (extract_metadata_try PdfReader w p)))
   \<and> length (successes PdfReader w d) =
        length (filter (\<lambda>p. \<not> isl (extract_metadata_try PdfReader w p)) (pdf_paths (walk w d)))"
proof -
  let ?w1 = "w\<lparr>stdout := stdout w @ error_lines PdfReader w d\<rparr>"
  have scan: "scan_walk PdfReader (walk w d) ([], w) = (Inr (successes PdfReader w d), ?w1)"
    using scan_walk_eq [of PdfReader w "walk w d" "[]"] assms
    by (simp add: successes_def error_lines_def)
  have none: "process_directory PdfReader d out w =
        (None, w\<lparr>stdout := stdout w @ error_lines PdfReader w d
                   @ [[Text (lit ''No pdf files found in directory.'')]]\<rparr>)"
    if "successes PdfReader w d = []"
      and "stdout_error w [Text (lit ''No pdf files found in directory.'')] = None"
    using that by (simp add: process_directory_def scan print_def none_found_line_def)
  have saved: "process_directory PdfReader d out w =
        (None, w2\<lparr>stdout := stdout w @ error_lines PdfReader w d
                    @ [[Text (lit ''Metadata from ''),
                        Str_int (length (successes PdfReader w d)),
                        Text (lit '' files was saved in '' @ out @ lit ''.'')]]\<rparr>)"
    if some: "successes PdfReader w d \<noteq> []"
      and written: "write_csv (successes PdfReader w d) out ?w1 = (None, w2)"
      and taken: "stdout_error w [Text (lit ''Metadata from ''),
             Str_int (length (successes PdfReader w d)),
             Text (lit '' files was saved in '' @ out @ lit ''.'')] = None"
  proof -
    from write_csv_stdout [OF written]
    have "stdout w2 = stdout w @ error_lines PdfReader w d" "stdout_error w2 = stdout_error w"
      by simp_all
    with some written taken show ?thesis
      by (simp add: process_directory_def scan print_def saved_line_def)
  qed
  have raised: "process_directory PdfReader d out w = (Some e, w2)
      \<and> stdout w2 = stdout w @ error_lines PdfReader w d"
    if some: "successes PdfReader w d \<noteq> []"
      and written: "write_csv (successes PdfReader w d) out ?w1 = (Some e, w2)"
  proof -
    from write_csv_stdout [OF written]
    have "stdout w2 = stdout w @ error_lines PdfReader w d" by simp
    with some written show ?thesis by (simp add: process_directory_def scan)
  qed
  have empty: "successes PdfReader w d = [] \<longleftrightarrow>
        (\<forall>p \<in> set (pdf_paths (walk w d)). isl (extract_metadata_try PdfReader w p))"
    by (simp add: successes_def parsed_empty)
  have count: "length (successes PdfReader w d) =
        length (filter (\<lambda>p. \<not> isl (extract_metadata_try PdfReader w p)) (pdf_paths (walk w d)))"
    by (simp add: successes_def parsed_length)
  from none saved raised empty count show ?thesis by blast
qed

theorem process_directory_messages_witness:
  "process_directory no_info_library (lit ''docs'') (lit ''out.csv'') docs_world =
     (None, docs_world\<lparr>stdout :=
        [[Text (lit ''Error processing file docs/doc.PDF: ''), Str_exn AttributeError],
         [Text (lit ''Error processing file docs/scan.pdf: ''), Str_exn AttributeError],
         [Text (lit ''No pdf files found in directory.'')]]\<rparr>)
   \<and> process_directory plain_library (lit ''docs'') (lit ''out.csv'') docs_world =
     (None, put_file (lit ''out.csv'') report_csv
        (docs_world\<lparr>stdout :=
           [[Text (lit ''Error processing file docs/scan.pdf: ''), Str_exn UnicodeDecodeError],
            [Text (lit ''Metadata from ''), Str_int 1,
             Text (lit '' files was saved in out.csv.'')]]\<rparr>))"
proof -
  let ?w1 = "docs_world\<lparr>stdout := stdout docs_world
      @ error_lines plain_library docs_world (lit ''docs'')\<rparr>"
  have out: "\<forall>e. fs ?w1 (lit ''out.csv'') \<noteq> NoAccess e"
    by (simp add: docs_world_def lit_def)
  have keys: "\<forall>m \<in> set [report_record]. map fst m = field_names"
    by (simp add: report_record_def field_names_def)
  have written: "write_csv (successes plain_library docs_world (lit ''docs'')) (lit ''out.csv'') ?w1
      = (None, put_file (lit ''out.csv'') report_csv ?w1)"
    unfolding docs_successes(1)
    by (rule write_csv_uniform [OF _ keys out report_csv_encoded]) simp
  have some: "successes plain_library docs_world (lit ''docs'') \<noteq> []"
    by (simp add: docs_successes)
  have taken: "\<forall>l \<in> set (error_lines PdfReader docs_world (lit ''docs'')).
      stdout_error docs_world l = None" for PdfReader
    by (simp add: docs_stdout)
  from process_directory_messages [OF taken, where out = "lit ''out.csv''"
      and PdfReader = no_info_library] docs_successes(3)
  have "process_directory no_info_library (lit ''docs'') (lit ''out.csv'') docs_world =
      (None, docs_world\<lparr>stdout :=
         [diagnostic (lit ''docs/doc.PDF'') AttributeError,
          diagnostic (lit ''docs/scan.pdf'') AttributeError,
          [Text (lit ''No pdf files found in directory.'')]]\<rparr>)"
    by (simp add: docs_stdout docs_successes)
  moreover
  from process_directory_messages [OF taken, where out = "lit ''out.csv''"
      and PdfReader = plain_library
      and ?w2.0 = "put_file (lit ''out.csv'') report_csv ?w1"] some written
  have "process_directory plain_library (lit ''docs'') (lit ''out.csv'') docs_world =
      (None, (put_file (lit ''out.csv'') report_csv ?w1)\<lparr>stdout :=
         [diagnostic (lit ''docs/scan.pdf'') UnicodeDecodeError,
          [Text (lit ''Metadata from ''), Str_int 1,
           Text (lit '' files was saved in '' @ lit ''out.csv'' @ lit ''.'')]]\<rparr>)"
    by (simp add: docs_stdout docs_successes)
  ultimately show ?thesis
    by (simp add: put_file_def diagnostic_def lit_def)
qed

section \<open>The keys of a batch\<close>

text \<open>
  A row of the writer: a key outside the header raises \<open>ValueError\<close> before anything
  is written; otherwise the row is the record laid out under the header.
\<close>

lemma csv_text_get_or_empty:
  "csv_text (get_or_empty m k) = (case map_of m k of None \<Rightarrow> [] | Some v \<Rightarrow> csv_text v)"
  by (simp add: get_or_empty_def csv_text_def split: option.splits)

lemma writerow_extra_key:
  "\<not> set (map fst m) \<subseteq> set keys \<Longrightarrow> writerow keys m buf = Inl ValueError"
  by (auto simp: writerow_def dict_to_list_def)

lemma writerow_known_keys:
  "set (map fst m) \<subseteq> set keys \<Longrightarrow>
     writerow keys m buf =
       (case utf8_encode (row_under keys m) of
          None \<Rightarrow> Inl UnicodeEncodeError
        | Some h \<Rightarrow> Inr (buf @ h))"
proof -
  assume "set (map fst m) \<subseteq> set keys"
  then have "dict_to_list keys m = Inr (map (get_or_empty m) keys)"
    by (auto simp: dict_to_list_def)
  moreover have "csv_row (map csv_text (map (get_or_empty m) keys)) = row_under keys m"
    by (simp add: row_under_def comp_def csv_text_get_or_empty)
  ultimately show ?thesis by (simp add: writerow_def del: map_map)
qed

lemma writerow_Inr:
  assumes "writerow keys m buf = Inr buf'"
  shows "set (map fst m) \<subseteq> set keys
     \<and> (\<exists>h. utf8_encode (row_under keys m) = Some h \<and> buf' = buf @ h)"
proof (cases "set (map fst m) \<subseteq> set keys")
  case False
  from writerow_extra_key [OF False, of buf] assms show ?thesis by simp
next
  case True
  from writerow_known_keys [OF True, of buf] assms True show ?thesis
    by (auto split: option.splits)
qed

lemma writerows_None:
  "writerows keys ms buf = (None, buf') \<Longrightarrow>
     (\<forall>m \<in> set ms. set (map fst m) \<subseteq> set keys)
     \<and> (\<exists>b. utf8_encode (concat (map (row_under keys) ms)) = Some b \<and> buf' = buf @ b)"
proof (induction ms arbitrary: buf)
  case Nil
  then show ?case by simp
next
  case (Cons m ms)
  then obtain buf1 where w1: "writerow keys m buf = Inr buf1"
    and rest: "writerows keys ms buf1 = (None, buf')"
    by (auto split: sum.splits)
  from writerow_Inr [OF w1] obtain h where sub: "set (map fst m) \<subseteq> set keys"
    and h: "utf8_encode (row_under keys m) = Some h" and buf1: "buf1 = buf @ h"
    by blast
  from Cons.IH [OF rest] obtain t where subs: "\<forall>m \<in> set ms. set (map fst m) \<subseteq> set keys"
    and t: "utf8_encode (concat (map (row_under keys) ms)) = Some t" and buf': "buf' = buf1 @ t"
    by blast
  have "utf8_encode (concat (map (row_under keys) (m # ms))) = Some (h @ t)"
    by (simp add: utf8_encode_append h t)
  with sub subs buf1 buf' show ?case by simp
qed

lemma writerows_known_keys:
  "\<forall>m \<in> set ms. set (map fst m) \<subseteq> set keys \<Longrightarrow>
   utf8_encode (concat (map (row_under keys) ms)) = Some b \<Longrightarrow>
   writerows keys ms buf = (None, buf @ b)"
proof (induction ms arbitrary: buf b)
  case Nil
  then show ?case by simp
next
  case (Cons m ms)
  from Cons.prems(2) obtain h t where h: "utf8_encode (row_under keys m) = Some h"
    and t: "utf8_encode (concat (map (row_under keys) ms)) = Some t" and b: "b = h @ t"
    by (auto simp: utf8_encode_append split: option.splits)
  from Cons.prems(1) have here: "set (map fst m) \<subseteq> set keys"
    and rest: "\<forall>m \<in> set ms. set (map fst m) \<subseteq> set keys" by simp_all
  from writerow_known_keys [OF here, of buf] h have "writerow keys m buf = Inr (buf @ h)" by simp
  with Cons.IH [OF rest t, of "buf @ h"] show ?case by (simp add: b)
qed

lemma writerows_extra_key:
  "\<forall>x \<in> set pre. set (map fst x) \<subseteq> set keys \<Longrightarrow>
   utf8_encode (concat (map (row_under keys) pre)) = Some b \<Longrightarrow>
   \<not> set (map fst m) \<subseteq> set keys \<Longrightarrow>
   writerows keys (pre @ m # post) buf = (Some ValueError, buf @ b)"
proof (induction pre arbitrary: buf b)
  case Nil
  from writerow_extra_key [OF Nil(3), of buf] Nil(2) show ?case by simp
next
  case (Cons x pre)
  from Cons.prems(2) obtain h t where h: "utf8_encode (row_under keys x) = Some h"
    and t: "utf8_encode (concat (map (row_under keys) pre)) = Some t" and b: "b = h @ t"
    by (auto simp: utf8_encode_append split: option.splits)
  from Cons.prems(1) have here: "set (map fst x) \<subseteq> set keys"
    and rest: "\<forall>x \<in> set pre. set (map fst x) \<subseteq> set keys" by simp_all
  from writerow_known_keys [OF here, of buf] h have "writerow keys x buf = Inr (buf @ h)" by simp
  with Cons.IH [OF rest t Cons.prems(3), of "buf @ h"] show ?case by (simp add: b)
qed

text \<open>\<open>write_csv\<close> for a batch that is not empty, by what the rows do.\<close>

lemma write_csv_rows:
  assumes "\<forall>e. fs w output_file_name \<noteq> NoAccess e"
    and "utf8_encode (csv_row (map fst first)) = Some h"
    and "writerows (map fst first) (first # rest) h = (r, buf)"
  shows "write_csv (first # rest) output_file_name w = (r, put_file output_file_name buf w)"
  using assms
  by (cases "fs w output_file_name")
     (simp_all add: write_csv_def Let_def writeheader_eq del: writerows.simps)

lemma two_key_files:
  "utf8_encode (csv_row (map fst two_key_record)
      @ concat (map (row_under (map fst two_key_record)) [two_key_record, one_key_record]))
   = Some (octets ''Title;Author'' @ [13, 10] @ octets ''a;b'' @ [13, 10]
             @ octets '';c'' @ [13, 10])"
  "utf8_encode (csv_row (map fst two_key_record)
      @ concat (map (row_under (map fst two_key_record)) [two_key_record]))
   = Some (octets ''Title;Author'' @ [13, 10] @ octets ''a;b'' @ [13, 10])"
  by (simp_all add: two_key_record_def one_key_record_def row_under_def csv_row_def
      csv_field_def needs_quote_def csv_text_def lit_def octets_def utf8_encode_cp_def)

text \<open>
  C8. The claim is that a later record with a key set different from the first record's
  makes the writer silently drop or misalign columns. A key that the header does not
  have makes \<open>writerow\<close> raise \<open>ValueError\<close>: the write stops after the rows before it,
  and not silently.
\<close>

theorem write_csv_extra_key_raises:
  "write_csv [two_key_record, subject_record] (lit ''out.csv'') empty_world
   = (Some ValueError,
      put_file (lit ''out.csv'')
        (octets ''Title;Author'' @ [13, 10] @ octets ''a;b'' @ [13, 10]) empty_world)"
  by (simp add: write_csv_def two_key_record_def subject_record_def empty_world_fs
      writeheader_def writerow_def dict_to_list_def
      get_or_empty_def csv_text_def csv_row_def csv_field_def needs_quote_def lit_def octets_def
      utf8_encode_cp_def)

text \<open>
  C8, amended. Every record of a batch that the directory scan collects has the ten keys
  in the fixed order. The header is the keys of the first record only. With an output
  path that can be opened: when every later record has its keys among those of the first
  and the text can be encoded, \<open>write_csv\<close> returns and the file is the header followed
  by every record laid out under the header's keys, value by key, so no column is
  misaligned; and \<open>write_csv\<close> returns in no other case. When a record has a key that
  the first record lacks, the records before it being as above, \<open>write_csv\<close> raises
  \<open>ValueError\<close> and the file holds the header and the rows of the records before it. A
  key that a record lacks is written as the empty string.
\<close>

theorem write_csv_header_from_first_record:
  "(scan_walk PdfReader tree ([], w0) = (Inr batch, w1)
      \<longrightarrow> (\<forall>x \<in> set batch. map fst x = field_names))
   \<and> (write_csv (first # rest) output_file_name w = (None, w') \<longrightarrow>
        (\<forall>x \<in> set rest. set (map fst x) \<subseteq> set (map fst first))
        \<and> (\<exists>c. utf8_encode (csv_row (map fst first)
                   @ concat (map (row_under (map fst first)) (first # rest))) = Some c
               \<and> w' = put_file output_file_name c w))
   \<and> ((\<forall>e. fs w output_file_name \<noteq> NoAccess e)
        \<and> (\<forall>x \<in> set rest. set (map fst x) \<subseteq> set (map fst first))
        \<and> utf8_encode (csv_row (map fst first)
              @ concat (map (row_under (map fst first)) (first # rest))) = Some b
      \<longrightarrow> write_csv (first # rest) output_file_name w = (None, put_file output_file_name b w))
   \<and> ((\<forall>e. fs w output_file_name \<noteq> NoAccess e)
        \<and> (\<forall>x \<in> set pre. set (map fst x) \<subseteq> set (map fst first))
        \<and> \<not> set (map fst m) \<subseteq> set (map fst first)
        \<and> utf8_encode (csv_row (map fst first)
              @ concat (map (row_under (map fst first)) (first # pre))) = Some b'
      \<longrightarrow> write_csv (first # pre @ m # post) output_file_name w
            = (Some ValueError, put_file output_file_name b' w))
   \<and> (k \<notin> set (map fst r) \<longrightarrow> csv_text (get_or_empty r k) = [])"
proof -
  let ?keys = "map fst first"
  have batch: "\<forall>x \<in> set batch. map fst x = field_names"
    if "scan_walk PdfReader tree ([], w0) = (Inr batch, w1)"
    using scan_walk_keys [OF that] by simp
  have returned: "(\<forall>x \<in> set rest. set (map fst x) \<subseteq> set ?keys)
        \<and> (\<exists>c. utf8_encode (csv_row ?keys
                   @ concat (map (row_under ?keys) (first # rest))) = Some c
               \<and> w' = put_file output_file_name c w)"
    if a: "write_csv (first # rest) output_file_name w = (None, w')"
  proof -
    from a obtain h buf' where hd: "writeheader ?keys [] = Inr h"
      and rows: "writerows ?keys (first # rest) h = (None, buf')"
      and w': "w' = put_file output_file_name buf' w"
      by (auto simp: write_csv_def Let_def simp del: writerows.simps
          split: node.splits sum.splits prod.splits)
    from hd have h: "utf8_encode (csv_row ?keys) = Some h"
      by (simp add: writeheader_eq split: option.splits)
    from writerows_None [OF rows] obtain c
      where subs: "\<forall>x \<in> set (first # rest). set (map fst x) \<subseteq> set ?keys"
        and c: "utf8_encode (concat (map (row_under ?keys) (first # rest))) = Some c"
        and buf': "buf' = h @ c"
      by blast
    have "utf8_encode (csv_row ?keys @ concat (map (row_under ?keys) (first # rest)))
        = Some (h @ c)"
      by (simp only: utf8_encode_append h c option.simps map_option_case)
    with subs w' buf' show ?thesis by simp
  qed
  have aligned: "write_csv (first # rest) output_file_name w
        = (None, put_file output_file_name b w)"
    if openable: "\<forall>e. fs w output_file_name \<noteq> NoAccess e"
      and subs: "\<forall>x \<in> set rest. set (map fst x) \<subseteq> set ?keys"
      and enc: "utf8_encode (csv_row ?keys
              @ concat (map (row_under ?keys) (first # rest))) = Some b"
  proof -
    from enc obtain h t where h: "utf8_encode (csv_row ?keys) = Some h"
      and t: "utf8_encode (concat (map (row_under ?keys) (first # rest))) = Some t"
      and b: "b = h @ t"
      by (auto simp: utf8_encode_append simp del: concat.simps list.map split: option.splits)
    from subs have all: "\<forall>x \<in> set (first # rest). set (map fst x) \<subseteq> set ?keys" by simp
    from writerows_known_keys [OF all t, of h]
    have "writerows ?keys (first # rest) h = (None, h @ t)" .
    from write_csv_rows [OF openable h this] b show ?thesis by simp
  qed
  have raised: "write_csv (first # pre @ m # post) output_file_name w
        = (Some ValueError, put_file output_file_name b' w)"
    if openable: "\<forall>e. fs w output_file_name \<noteq> NoAccess e"
      and subs: "\<forall>x \<in> set pre. set (map fst x) \<subseteq> set ?keys"
      and extra: "\<not> set (map fst m) \<subseteq> set ?keys"
      and enc: "utf8_encode (csv_row ?keys
              @ concat (map (row_under ?keys) (first # pre))) = Some b'"
  proof -
    from enc obtain h t where h: "utf8_encode (csv_row ?keys) = Some h"
      and t: "utf8_encode (concat (map (row_under ?keys) (first # pre))) = Some t"
      and b: "b' = h @ t"
      by (auto simp: utf8_encode_append simp del: concat.simps list.map split: option.splits)
    from subs have all: "\<forall>x \<in> set (first # pre). set (map fst x) \<subseteq> set ?keys" by simp
    from writerows_extra_key [OF all t extra, of post h]
    have "writerows ?keys (first # pre @ m # post) h = (Some ValueError, h @ t)" by simp
    from write_csv_rows [OF openable h this] b show ?thesis by simp
  qed
  have missing: "csv_text (get_or_empty r k) = []" if "k \<notin> set (map fst r)"
  proof -
    from that have "map_of r k = None" by (simp add: map_of_eq_None_iff)
    then show ?thesis by (simp add: get_or_empty_def csv_text_def)
  qed
  from batch returned aligned raised missing show ?thesis by blast
qed

theorem write_csv_header_from_first_record_witness:
  "scan_walk plain_library (walk docs_world (lit ''docs'')) ([], docs_world)
     = (Inr [report_record],
        docs_world\<lparr>stdout := [diagnostic (lit ''docs/scan.pdf'') UnicodeDecodeError]\<rparr>)
   \<and> map fst report_record = field_names
   \<and> write_csv [two_key_record, one_key_record] (lit ''out.csv'') empty_world =
       (None, put_file (lit ''out.csv'')
          (octets ''Title;Author'' @ [13, 10] @ octets ''a;b'' @ [13, 10]
             @ octets '';c'' @ [13, 10]) empty_world)
   \<and> write_csv [two_key_record, one_key_record, subject_record, report_record]
         (lit ''out.csv'') empty_world =
       (Some ValueError, put_file (lit ''out.csv'')
          (octets ''Title;Author'' @ [13, 10] @ octets ''a;b'' @ [13, 10]
             @ octets '';c'' @ [13, 10]) empty_world)
   \<and> csv_text (get_or_empty one_key_record (lit ''Title'')) = []"
proof -
  let ?b = "octets ''Title;Author'' @ [13, 10] @ octets ''a;b'' @ [13, 10]
             @ octets '';c'' @ [13, 10]"
  let ?w1 = "docs_world\<lparr>stdout := [diagnostic (lit ''docs/scan.pdf'') UnicodeDecodeError]\<rparr>"
  note t = write_csv_header_from_first_record [where PdfReader = plain_library
      and tree = "walk docs_world (lit ''docs'')" and ?w0.0 = docs_world
      and batch = "[report_record]" and ?w1.0 = ?w1
      and first = two_key_record and rest = "[one_key_record]"
      and output_file_name = "lit ''out.csv''" and w = empty_world
      and b = ?b and b' = ?b and pre = "[one_key_record]" and m = subject_record
      and post = "[report_record]"
      and k = "lit ''Title''" and r = one_key_record]
  have taken: "\<forall>l \<in> set (failed plain_library docs_world (pdf_paths (walk docs_world (lit ''docs'')))).
      stdout_error docs_world l = None"
    by (simp add: docs_stdout)
  have scan: "scan_walk plain_library (walk docs_world (lit ''docs'')) ([], docs_world)
      = (Inr [report_record], ?w1)"
    using scan_walk_eq [OF taken, of "[]"] docs_successes(1,2)
    by (simp add: successes_def error_lines_def docs_stdout)
  have openable: "\<forall>e. fs empty_world (lit ''out.csv'') \<noteq> NoAccess e"
    by (simp add: empty_world_fs)
  have known: "\<forall>x \<in> set [one_key_record]. set (map fst x) \<subseteq> set (map fst two_key_record)"
    by (simp add: one_key_record_def two_key_record_def)
  have extra: "\<not> set (map fst subject_record) \<subseteq> set (map fst two_key_record)"
    by (simp add: subject_record_def two_key_record_def lit_def)
  have absent: "lit ''Title'' \<notin> set (map fst one_key_record)"
    by (simp add: one_key_record_def lit_def)
  from t scan have "map fst report_record = field_names" by simp
  moreover from t openable known two_key_files(1)
  have "write_csv [two_key_record, one_key_record] (lit ''out.csv'') empty_world =
       (None, put_file (lit ''out.csv'') ?b empty_world)"
    by blast
  moreover from t openable known extra two_key_files(1)
  have "write_csv (two_key_record # [one_key_record] @ subject_record # [report_record])
         (lit ''out.csv'') empty_world =
       (Some ValueError, put_file (lit ''out.csv'') ?b empty_world)"
    by blast
  moreover from t absent have "csv_text (get_or_empty one_key_record (lit ''Title'')) = []"
    by blast
  ultimately show ?thesis using scan by simp
qed

end
